theory Spec2Isabelle
  imports Complex_Main "HOL-Library.Multiset"
begin

section \<open>Ledger data model (types.ts)\<close>

text \<open>
  \<^verbatim>\<open>TransactionType = 'income' | 'expense'\<close> is a two-valued enum. A transaction
  is the interface \<^verbatim>\<open>Transaction\<close>; the fields \<^verbatim>\<open>id\<close> and \<^verbatim>\<open>type\<close> are
  written \<open>tx_id\<close> and \<open>tx_type\<close>. The numeric type of \<^verbatim>\<open>amount\<close> is a parameter:
  the aggregation functions read amounts as exact rationals (rounding, NaN and the
  infinities of IEEE doubles are outside the model there), the save handler stores
  whatever \<^verbatim>\<open>parseFloat\<close> returned, NaN included. \<^verbatim>\<open>timestamp\<close> is epoch
  milliseconds, an integer.
\<close>

datatype TransactionType = Income | Expense

record 'n Transaction =
  tx_id :: string
  amount :: 'n
  tx_type :: TransactionType
  category :: string
  description :: string
  date :: string
  timestamp :: int

text \<open>The string a \<^verbatim>\<open>TransactionType\<close> is at run time (used in template strings).\<close>

fun type_string :: "TransactionType \<Rightarrow> string" where
  "type_string Income = ''income''"
| "type_string Expense = ''expense''"

section \<open>Platform functions used by the ledger view\<close>

text \<open>
  \<^verbatim>\<open>Array.prototype.sort(cmp)\<close> is stable; with a consistent comparator its result is
  the stable insertion sort below: \<open>x\<close> is placed before the first \<open>y\<close> with
  \<open>cmp x y \<le> 0\<close>.
\<close>

fun sort_insert :: "('a \<Rightarrow> 'a \<Rightarrow> 'b::{linorder,zero}) \<Rightarrow> 'a \<Rightarrow> 'a list \<Rightarrow> 'a list" where
  "sort_insert cmp x [] = [x]"
| "sort_insert cmp x (y # ys) =
     (if cmp x y \<le> 0 then x # y # ys else y # sort_insert cmp x ys)"

definition array_sort :: "('a \<Rightarrow> 'a \<Rightarrow> 'b::{linorder,zero}) \<Rightarrow> 'a list \<Rightarrow> 'a list" where
  "array_sort cmp xs = foldr (sort_insert cmp) xs []"

text \<open>
  \<^verbatim>\<open>String.prototype.split(sep)\<close> for a one-character separator: the segments between
  the separators; the empty string gives one empty segment.
\<close>

fun split_on :: "char \<Rightarrow> string \<Rightarrow> string list" where
  "split_on sep [] = [[]]"
| "split_on sep (c # cs) =
     (if c = sep then [] # split_on sep cs
      else (case split_on sep cs of
              [] \<Rightarrow> [[c]]
            | seg # segs \<Rightarrow> (c # seg) # segs))"

text \<open>Reading an array element: out of range is \<^verbatim>\<open>undefined\<close>, here \<open>None\<close>.\<close>

fun array_get :: "'a list \<Rightarrow> nat \<Rightarrow> 'a option" where
  "array_get [] i = None"
| "array_get (x # xs) 0 = Some x"
| "array_get (x # xs) (Suc i) = array_get xs i"

section \<open>Aggregation (LedgerView: summary, dailyStats)\<close>

record Summary =
  income :: rat
  expense :: rat
  total :: rat

text \<open>
  \<^verbatim>\<open>
  let income = 0; let expense = 0;
  transactions.forEach(t => {
    if (t.type === 'income') income += t.amount;
    else expense += t.amount;
  });
  return { income, expense, total: income - expense };
  \<close>
  The loop is a left fold over the pair of running totals.
\<close>

definition summary_step :: "rat \<times> rat \<Rightarrow> rat Transaction \<Rightarrow> rat \<times> rat" where
  "summary_step acc t =
     (case acc of (inc, expn) \<Rightarrow>
        if tx_type t = Income then (inc + amount t, expn) else (inc, expn + amount t))"

definition summary :: "rat Transaction list \<Rightarrow> Summary" where
  "summary transactions =
     (case foldl summary_step (0, 0) transactions of
        (inc, expn) \<Rightarrow> \<lparr> income = inc, expense = expn, total = inc - expn \<rparr>)"

text \<open>Color palettes of the pie chart.\<close>

definition INCOME_COLORS :: "string list" where
  "INCOME_COLORS = [''#10b981'', ''#3b82f6'', ''#06b6d4'', ''#8b5cf6'']"

definition EXPENSE_COLORS :: "string list" where
  "EXPENSE_COLORS = [''#ef4444'', ''#f59e0b'', ''#ec4899'', ''#f43f5e'', ''#6366f1'']"

text \<open>
  \<^verbatim>\<open>categoryMap\<close> is an object used as a dictionary from the key
  \<^verbatim>\<open>`${t.type}-${t.category}`\<close> to \<^verbatim>\<open>{ value, type }\<close>. Its keys start with
  \<^verbatim>\<open>income-\<close> or \<^verbatim>\<open>expense-\<close>, so none is an array index or a property of
  \<^verbatim>\<open>Object.prototype\<close>, and \<^verbatim>\<open>Object.entries\<close> lists them in insertion order: an
  association list, new keys appended at the end.
\<close>

type_synonym categoryMap = "(string \<times> (rat \<times> TransactionType)) list"

definition category_key :: "rat Transaction \<Rightarrow> string" where
  "category_key t = type_string (tx_type t) @ ''-'' @ category t"

text \<open>
  \<^verbatim>\<open>
  if (!categoryMap[key]) { categoryMap[key] = { value: 0, type: t.type }; }
  categoryMap[key].value += t.amount;
  \<close>
\<close>

definition category_add :: "categoryMap \<Rightarrow> rat Transaction \<Rightarrow> categoryMap" where
  "category_add m t =
     (let key = category_key t;
          m1 = (if map_of m key = None then m @ [(key, (0, tx_type t))] else m)
      in map (\<lambda>(k, v). if k = key then (k, (fst v + amount t, snd v)) else (k, v)) m1)"

record PieEntry =
  entry_name :: "string option"
  entry_value :: rat
  entry_type :: TransactionType
  entry_color :: string

text \<open>
  \<^verbatim>\<open>
  let incomeIdx = 0; let expenseIdx = 0;
  Object.entries(categoryMap).map(([key, data]) => {
    const categoryName = key.split('-')[1];
    const color = data.type === 'income'
      ? INCOME_COLORS[incomeIdx++ % INCOME_COLORS.length]
      : EXPENSE_COLORS[expenseIdx++ % EXPENSE_COLORS.length];
    return { name: categoryName, value: data.value, type: data.type, color: color };
  })
  \<close>
  The two counters are threaded through the map. The palette index is below the
  palette's length, so the read is in range.
\<close>

fun pie_entries :: "nat \<Rightarrow> nat \<Rightarrow> categoryMap \<Rightarrow> PieEntry list" where
  "pie_entries incomeIdx expenseIdx [] = []"
| "pie_entries incomeIdx expenseIdx ((key, data) # rest) =
     (let categoryName = array_get (split_on CHR ''-'' key) 1 in
      if snd data = Income
      then \<lparr> entry_name = categoryName, entry_value = fst data, entry_type = snd data,
             entry_color = INCOME_COLORS ! (incomeIdx mod length INCOME_COLORS) \<rparr>
           # pie_entries (Suc incomeIdx) expenseIdx rest
      else \<lparr> entry_name = categoryName, entry_value = fst data, entry_type = snd data,
             entry_color = EXPENSE_COLORS ! (expenseIdx mod length EXPENSE_COLORS) \<rparr>
           # pie_entries incomeIdx (Suc expenseIdx) rest)"

record DailyStats =
  day_income :: rat
  day_expense :: rat
  totalVolume :: rat
  pieData :: "PieEntry list"
  dayTransactions :: "rat Transaction list"

text \<open>The body of the \<^verbatim>\<open>forEach\<close> over the day's transactions.\<close>

definition daily_step ::
  "rat \<times> rat \<times> categoryMap \<Rightarrow> rat Transaction \<Rightarrow> rat \<times> rat \<times> categoryMap" where
  "daily_step acc t =
     (case acc of (inc, expn, m) \<Rightarrow>
        if tx_type t = Income then (inc + amount t, expn, category_add m t)
        else (inc, expn + amount t, category_add m t))"

definition dailyStats :: "rat Transaction list \<Rightarrow> string \<Rightarrow> DailyStats" where
  "dailyStats transactions statsDate =
     (let dayTrans = array_sort (\<lambda>a b. timestamp b - timestamp a)
                       (filter (\<lambda>t. date t = statsDate) transactions)
      in case foldl daily_step (0, 0, []) dayTrans of
           (inc, expn, categoryMap) \<Rightarrow>
             \<lparr> day_income = inc, day_expense = expn, totalVolume = inc + expn,
               pieData = array_sort (\<lambda>a b. entry_value b - entry_value a)
                           (pie_entries 0 0 categoryMap),
               dayTransactions = dayTrans \<rparr>)"

text \<open>The first value computed by \<^verbatim>\<open>dailyStats\<close>: the day's transactions, newest first.\<close>

definition day_list :: "rat Transaction list \<Rightarrow> string \<Rightarrow> rat Transaction list" where
  "day_list ts d = array_sort (\<lambda>a b. timestamp b - timestamp a) (filter (\<lambda>t. date t = d) ts)"

subsection \<open>The breakdown list as the specification words it\<close>

text \<open>
  The specification describes the breakdown declaratively: one entry per distinct pair
  (type, category) of the day's transactions, in order of first encounter, with the
  pair's summed amount and a color taken from the palette of its type, the \<open>n\<close>-th
  pair of a type getting the \<open>n\<close>-th color (cyclically). These definitions follow
  those words; theorem \<open>pieData_breakdown\<close> relates them to the code's loop.
  The name of an entry is what the code shows: the category up to its first hyphen.
\<close>

definition first_seen :: "'a list \<Rightarrow> 'a list" where
  "first_seen xs = rev (remdups (rev xs))"

definition day_pairs :: "rat Transaction list \<Rightarrow> (TransactionType \<times> string) list" where
  "day_pairs day = first_seen (map (\<lambda>t. (tx_type t, category t)) day)"

definition pair_total :: "rat Transaction list \<Rightarrow> TransactionType \<times> string \<Rightarrow> rat" where
  "pair_total day p =
     sum_list (map amount (filter (\<lambda>t. (tx_type t, category t) = p) day))"

definition palette_color :: "nat \<Rightarrow> nat \<Rightarrow> (TransactionType \<times> string) list \<Rightarrow> TransactionType \<Rightarrow> string" where
  "palette_color i e earlier ty =
     (if ty = Income
      then INCOME_COLORS ! ((i + length (filter (\<lambda>p. fst p = Income) earlier)) mod length INCOME_COLORS)
      else EXPENSE_COLORS ! ((e + length (filter (\<lambda>p. fst p \<noteq> Income) earlier)) mod length EXPENSE_COLORS))"

definition breakdown_entry ::
  "rat Transaction list \<Rightarrow> nat \<Rightarrow> nat \<Rightarrow> (TransactionType \<times> string) list \<Rightarrow> nat \<Rightarrow> PieEntry" where
  "breakdown_entry day i e ps k =
     \<lparr> entry_name = Some (takeWhile (\<lambda>c. c \<noteq> CHR ''-'') (snd (ps ! k))),
       entry_value = pair_total day (ps ! k),
       entry_type = fst (ps ! k),
       entry_color = palette_color i e (take k ps) (fst (ps ! k)) \<rparr>"

definition breakdown :: "rat Transaction list \<Rightarrow> PieEntry list" where
  "breakdown day = map (breakdown_entry day 0 0 (day_pairs day)) [0..<length (day_pairs day)]"

text \<open>The key of a pair in \<^verbatim>\<open>categoryMap\<close>, and the map's entry for a pair.\<close>

definition pair_key :: "TransactionType \<times> string \<Rightarrow> string" where
  "pair_key p = type_string (fst p) @ ''-'' @ snd p"

definition cat_entry :: "rat Transaction list \<Rightarrow> TransactionType \<times> string \<Rightarrow> string \<times> rat \<times> TransactionType" where
  "cat_entry day p = (pair_key p, (pair_total day p, fst p))"

section \<open>The ledger's save handler (LedgerView.handleSave)\<close>

subsection \<open>Numbers and \<^verbatim>\<open>parseFloat\<close>\<close>

text \<open>
  The result of \<^verbatim>\<open>parseFloat\<close> is a JavaScript number: NaN, an infinity, or a finite
  value. Finite values are exact rationals here: the rounding of a decimal literal to the
  nearest double is outside the model.
\<close>

datatype number = NaN | Num rat | PosInfinity | NegInfinity

text \<open>\<^verbatim>\<open>x <= 0\<close> and \<^verbatim>\<open>x > 0\<close>: every comparison with NaN is false.\<close>

fun number_le_zero :: "number \<Rightarrow> bool" where
  "number_le_zero NaN = False"
| "number_le_zero (Num r) = (r \<le> 0)"
| "number_le_zero PosInfinity = False"
| "number_le_zero NegInfinity = True"

fun number_gt_zero :: "number \<Rightarrow> bool" where
  "number_gt_zero NaN = False"
| "number_gt_zero (Num r) = (0 < r)"
| "number_gt_zero PosInfinity = True"
| "number_gt_zero NegInfinity = False"

text \<open>
  White space as \<^verbatim>\<open>String.prototype.trim\<close> and \<^verbatim>\<open>parseFloat\<close> strip it: the code
  points of WhiteSpace and LineTerminator. Strings are byte strings here, text outside
  ASCII being its UTF-8 bytes, so a white-space code point is a short byte sequence.
\<close>

definition white_space :: "string list" where
  "white_space =
     [[CHR 0x09],
      [CHR 0x0A],
      [CHR 0x0B],
      [CHR 0x0C],
      [CHR 0x0D],
      [CHR 0x20],
      [CHR 0xC2, CHR 0xA0],
      [CHR 0xE1, CHR 0x9A, CHR 0x80],
      [CHR 0xE2, CHR 0x80, CHR 0x80],
      [CHR 0xE2, CHR 0x80, CHR 0x81],
      [CHR 0xE2, CHR 0x80, CHR 0x82],
      [CHR 0xE2, CHR 0x80, CHR 0x83],
      [CHR 0xE2, CHR 0x80, CHR 0x84],
      [CHR 0xE2, CHR 0x80, CHR 0x85],
      [CHR 0xE2, CHR 0x80, CHR 0x86],
      [CHR 0xE2, CHR 0x80, CHR 0x87],
      [CHR 0xE2, CHR 0x80, CHR 0x88],
      [CHR 0xE2, CHR 0x80, CHR 0x89],
      [CHR 0xE2, CHR 0x80, CHR 0x8A],
      [CHR 0xE2, CHR 0x80, CHR 0xA8],
      [CHR 0xE2, CHR 0x80, CHR 0xA9],
      [CHR 0xE2, CHR 0x80, CHR 0xAF],
      [CHR 0xE2, CHR 0x81, CHR 0x9F],
      [CHR 0xE3, CHR 0x80, CHR 0x80],
      [CHR 0xEF, CHR 0xBB, CHR 0xBF]]"

text \<open>The rest of \<open>s\<close> after the first of the given prefixes that it starts with.\<close>

fun strip_one :: "string list \<Rightarrow> string \<Rightarrow> string option" where
  "strip_one [] s = None"
| "strip_one (p # ps) s =
     (if p \<noteq> [] \<and> take (length p) s = p then Some (drop (length p) s) else strip_one ps s)"

text \<open>Stripping prefixes as long as there is one; the fuel is the length of the string.\<close>

fun strip_many :: "nat \<Rightarrow> string list \<Rightarrow> string \<Rightarrow> string" where
  "strip_many 0 ps s = s"
| "strip_many (Suc n) ps s =
     (case strip_one ps s of None \<Rightarrow> s | Some rest \<Rightarrow> strip_many n ps rest)"

definition trim_start :: "string \<Rightarrow> string" where
  "trim_start s = strip_many (length s) white_space s"

definition trim_end :: "string \<Rightarrow> string" where
  "trim_end s = rev (strip_many (length s) (map rev white_space) (rev s))"

definition trim :: "string \<Rightarrow> string" where
  "trim s = trim_end (trim_start s)"

definition is_digit :: "char \<Rightarrow> bool" where
  "is_digit c = (c \<in> set ''0123456789'')"

definition digit_value :: "char \<Rightarrow> int" where
  "digit_value c = of_char c - 48"

definition digits_value :: "string \<Rightarrow> int" where
  "digits_value ds = foldl (\<lambda>n c. 10 * n + digit_value c) 0 ds"

text \<open>\<open>m \<times> 10\<^sup>e\<close> as a rational.\<close>

definition scale10 :: "int \<Rightarrow> int \<Rightarrow> rat" where
  "scale10 m e = (if 0 \<le> e then of_int m * 10 ^ nat e else of_int m / 10 ^ nat (- e))"

text \<open>
  ExponentPart: \<^verbatim>\<open>e\<close> or \<^verbatim>\<open>E\<close>, an optional sign, at least one digit. It belongs to
  the literal only when complete; otherwise the literal ends before it and the exponent
  is 0.
\<close>

definition exponent_part :: "string \<Rightarrow> int" where
  "exponent_part s =
     (case s of
        [] \<Rightarrow> 0
      | c # r \<Rightarrow>
          if c = CHR ''e'' \<or> c = CHR ''E'' then
            (case r of
               [] \<Rightarrow> 0
             | x # r' \<Rightarrow>
                 if x = CHR ''+'' then
                   (if takeWhile is_digit r' = [] then 0
                    else digits_value (takeWhile is_digit r'))
                 else if x = CHR ''-'' then
                   (if takeWhile is_digit r' = [] then 0
                    else - digits_value (takeWhile is_digit r'))
                 else if takeWhile is_digit r = [] then 0
                 else digits_value (takeWhile is_digit r))
          else 0)"

text \<open>
  StrUnsignedDecimalLiteral, longest prefix: \<^verbatim>\<open>Infinity\<close>, or digits with an optional
  fraction and exponent, or a point followed by digits and an optional exponent. \<open>None\<close>
  when no prefix is a literal; otherwise the value, infinite (\<open>Inl ()\<close>) or finite.
\<close>

definition unsigned_literal :: "string \<Rightarrow> (unit + rat) option" where
  "unsigned_literal s =
     (if take 8 s = ''Infinity'' then Some (Inl ())
      else
        let ip = takeWhile is_digit s; r1 = dropWhile is_digit s in
        (case r1 of
           c # r2 \<Rightarrow>
             if c = CHR ''.'' then
               (let fp = takeWhile is_digit r2; r3 = dropWhile is_digit r2 in
                if ip = [] \<and> fp = [] then None
                else Some (Inr (scale10 (digits_value (ip @ fp))
                                  (exponent_part r3 - int (length fp)))))
             else if ip = [] then None
             else Some (Inr (scale10 (digits_value ip) (exponent_part r1)))
         | [] \<Rightarrow>
             if ip = [] then None else Some (Inr (of_int (digits_value ip)))))"

text \<open>
  \<^verbatim>\<open>parseFloat(string)\<close>: strip leading white space, read an optional sign and the
  longest prefix that is a decimal literal, ignore what follows; NaN when there is no
  such prefix.
\<close>

definition parseFloat :: "string \<Rightarrow> number" where
  "parseFloat string =
     (let t = trim_start string;
          neg = (take 1 t = ''-'');
          body = (if take 1 t = ''-'' \<or> take 1 t = ''+'' then drop 1 t else t)
      in case unsigned_literal body of
           None \<Rightarrow> NaN
         | Some (Inl _) \<Rightarrow> if neg then NegInfinity else PosInfinity
         | Some (Inr r) \<Rightarrow> Num (if neg then - r else r))"

subsection \<open>The handler\<close>

text \<open>
  The component state the handler reads and writes. \<open>f_amount\<close>, \<open>f_desc\<close>,
  \<open>f_type\<close>, \<open>f_category\<close> and \<open>f_date\<close> are the form's state variables
  \<^verbatim>\<open>amount\<close>, \<^verbatim>\<open>desc\<close>, \<^verbatim>\<open>type\<close>, \<^verbatim>\<open>category\<close> and \<^verbatim>\<open>date\<close>;
  \<^verbatim>\<open>editingId\<close> is a string or null; \<open>transactions\<close> is the collection behind
  \<^verbatim>\<open>setTransactions\<close>.
\<close>

record LedgerState =
  transactions :: "number Transaction list"
  isModalOpen :: bool
  editingId :: "string option"
  f_amount :: string
  f_desc :: string
  f_type :: TransactionType
  f_category :: string
  f_date :: string

text \<open>
  \<^verbatim>\<open>
  const handleSave = () => {
    if (!amount || parseFloat(amount) <= 0) { alert(...); return; }
    const description = desc.trim() || category;
    if (editingId) {
      setTransactions(prev => prev.map(t =>
        t.id === editingId
        ? { ...t, amount: parseFloat(amount), description, type, category, date } : t));
    } else {
      const newTrans = { id: safeUUID(), amount: parseFloat(amount), description, type,
                         category, date, timestamp: Date.now() };
      setTransactions(prev => [newTrans, ...prev]);
    }
    setIsModalOpen(false); setAmount(''); setDesc(''); setEditingId(null);
  };
  \<close>
  The fresh id and the clock are inputs (\<open>uuid\<close>, \<open>now\<close>). The result is whether the
  alert was shown, and the state after the handler; \<open>saved_transactions\<close> is the
  collection after the two \<^verbatim>\<open>setTransactions\<close> branches. An empty string is falsy, for
  \<^verbatim>\<open>amount\<close>, for the trimmed description and for \<^verbatim>\<open>editingId\<close>.
\<close>

definition saved_transactions :: "string \<Rightarrow> int \<Rightarrow> LedgerState \<Rightarrow> number Transaction list" where
  "saved_transactions uuid now st =
     (let descr = (if trim (f_desc st) = [] then f_category st else trim (f_desc st));
          newTrans = \<lparr> tx_id = uuid, amount = parseFloat (f_amount st), tx_type = f_type st,
                       category = f_category st, description = descr, date = f_date st,
                       timestamp = now \<rparr>
      in case editingId st of
           Some eid \<Rightarrow>
             if eid \<noteq> [] then
               map (\<lambda>t. if tx_id t = eid
                         then t\<lparr> amount := parseFloat (f_amount st), description := descr,
                                 tx_type := f_type st, category := f_category st,
                                 date := f_date st \<rparr>
                         else t) (transactions st)
             else newTrans # transactions st
         | None \<Rightarrow> newTrans # transactions st)"

definition handleSave :: "string \<Rightarrow> int \<Rightarrow> LedgerState \<Rightarrow> bool \<times> LedgerState" where
  "handleSave uuid now st =
     (if f_amount st = [] \<or> number_le_zero (parseFloat (f_amount st)) then (True, st)
      else (False, st\<lparr> transactions := saved_transactions uuid now st, isModalOpen := False,
                        f_amount := [], f_desc := [], editingId := None \<rparr>))"

section \<open>Constants (constants.ts)\<close>

text \<open>
  JavaScript strings are sequences of code units. The model uses Isabelle's strings of
  8-bit characters: ASCII text is itself, text outside ASCII is the sequence of its UTF-8
  bytes. The default quote and the default category names are Chinese text, written
  here byte by byte.
\<close>

definition DEFAULT_QUOTE :: string where
  "DEFAULT_QUOTE =
     [CHR 0xE4, CHR 0xBF, CHR 0x9D, CHR 0xE6, CHR 0x8C, CHR 0x81, CHR 0xE7, CHR 0xAE, CHR 0x80,
      CHR 0xE5, CHR 0x8D, CHR 0x95, CHR 0xEF, CHR 0xBC, CHR 0x8C, CHR 0xE8, CHR 0xAE, CHR 0xB0,
      CHR 0xE5, CHR 0xBD, CHR 0x95, CHR 0xE5, CHR 0xBD, CHR 0x93, CHR 0xE4, CHR 0xB8, CHR 0x8B,
      CHR 0xE3, CHR 0x80, CHR 0x82]"

definition DEFAULT_NOTE_CATEGORIES :: "string list" where
  "DEFAULT_NOTE_CATEGORIES =
     [[CHR 0xE7, CHR 0x94, CHR 0x9F, CHR 0xE6, CHR 0xB4, CHR 0xBB],
      [CHR 0xE5, CHR 0xB7, CHR 0xA5, CHR 0xE4, CHR 0xBD, CHR 0x9C],
      [CHR 0xE7, CHR 0x81, CHR 0xB5, CHR 0xE6, CHR 0x84, CHR 0x9F],
      [CHR 0xE5, CHR 0xBE, CHR 0x85, CHR 0xE5, CHR 0x8A, CHR 0x9E]]"

definition DEFAULT_LEDGER_CATEGORIES :: "string list" where
  "DEFAULT_LEDGER_CATEGORIES =
     [[CHR 0xE9, CHR 0xA4, CHR 0x90, CHR 0xE9, CHR 0xA5, CHR 0xAE],
      [CHR 0xE4, CHR 0xBA, CHR 0xA4, CHR 0xE9, CHR 0x80, CHR 0x9A],
      [CHR 0xE8, CHR 0xB4, CHR 0xAD, CHR 0xE7, CHR 0x89, CHR 0xA9],
      [CHR 0xE5, CHR 0xB7, CHR 0xA5, CHR 0xE8, CHR 0xB5, CHR 0x84],
      [CHR 0xE5, CHR 0xA8, CHR 0xB1, CHR 0xE4, CHR 0xB9, CHR 0x90],
      [CHR 0xE5, CHR 0x85, CHR 0xB6, CHR 0xE4, CHR 0xBB, CHR 0x96]]"

section \<open>Platform model: JSON values, \<^verbatim>\<open>JSON.parse\<close>, \<^verbatim>\<open>JSON.stringify\<close>\<close>

text \<open>
  The values \<^verbatim>\<open>JSON.parse\<close> returns. A number \<open>JNum m e\<close> is the decimal
  \<open>m \<times> 10\<^sup>e\<close>, exact (no rounding to a double). An object is the list of its own
  properties in the order \<^verbatim>\<open>Object.keys\<close> enumerates them.
\<close>

datatype json =
    JNull
  | JBool bool
  | JNum int int
  | JStr string
  | JArr "json list"
  | JObj "(string \<times> json) list"

datatype error = SyntaxError | TypeError | Error string

subsection \<open>Decimal digits\<close>

definition digit_char :: "int \<Rightarrow> char" where
  "digit_char d = ''0123456789'' ! nat (d mod 10)"

text \<open>The decimal digits of a non-negative integer.\<close>

function show_nat :: "int \<Rightarrow> string" where
  "show_nat n = (if n < 10 then [digit_char n] else show_nat (n div 10) @ [digit_char (n mod 10)])"
  by pat_completeness auto
termination
  by (relation "measure nat") auto

text \<open>Dropping the trailing zeros of a mantissa into the exponent.\<close>

function strip_zeros :: "int \<Rightarrow> int \<Rightarrow> int \<times> int" where
  "strip_zeros m e = (if 0 < m \<and> m mod 10 = 0 then strip_zeros (m div 10) (e + 1) else (m, e))"
  by pat_completeness auto
termination
  by (relation "measure (\<lambda>(m, e). nat m)") auto

definition normal_number :: "int \<Rightarrow> int \<Rightarrow> json" where
  "normal_number m e =
     (if m = 0 then JNum 0 0
      else case strip_zeros \<bar>m\<bar> e of
             (a, e') \<Rightarrow> JNum (if m < 0 then - a else a) e')"

text \<open>
  \<^verbatim>\<open>Number::toString\<close> in radix 10: with \<open>k\<close> significant digits and the decimal
  point after the \<open>n\<close>-th, positional notation for \<open>-5 \<le> n \<le> 21\<close>, exponential otherwise.
\<close>

definition number_to_string :: "int \<Rightarrow> int \<Rightarrow> string" where
  "number_to_string m e =
     (if m = 0 then ''0''
      else case strip_zeros \<bar>m\<bar> e of
        (a, e') \<Rightarrow>
          let ds = show_nat a; k = int (length ds); n = k + e' in
          (if m < 0 then ''-'' else '''') @
          (if k \<le> n \<and> n \<le> 21 then ds @ replicate (nat (n - k)) CHR ''0''
           else if 0 < n \<and> n \<le> 21 then take (nat n) ds @ ''.'' @ drop (nat n) ds
           else if - 6 < n \<and> n \<le> 0 then ''0.'' @ replicate (nat (- n)) CHR ''0'' @ ds
           else
             let es = (if n - 1 < 0 then ''-'' else ''+'') @ show_nat \<bar>n - 1\<bar> in
             if k = 1 then ds @ ''e'' @ es
             else take 1 ds @ ''.'' @ drop 1 ds @ ''e'' @ es))"

subsection \<open>Objects: property order\<close>

text \<open>
  An array index is the canonical decimal form of an integer below \<open>2\<^sup>3\<^sup>2 - 1\<close>. The
  own keys of an ordinary object are enumerated with the array indices first, ascending,
  then the other string keys in the order of their creation. \<open>obj_put\<close> is
  \<^verbatim>\<open>CreateDataProperty\<close>: an existing key keeps its place and takes the new value.
\<close>

definition is_array_index :: "string \<Rightarrow> bool" where
  "is_array_index k =
     (k \<noteq> [] \<and> list_all is_digit k \<and> (k = ''0'' \<or> hd k \<noteq> CHR ''0'')
      \<and> length k \<le> 10 \<and> digits_value k < 4294967295)"

definition index_before :: "string \<Rightarrow> string \<times> json \<Rightarrow> bool" where
  "index_before k p = (is_array_index (fst p) \<and> digits_value (fst p) < digits_value k)"

definition obj_put :: "string \<Rightarrow> json \<Rightarrow> (string \<times> json) list \<Rightarrow> (string \<times> json) list" where
  "obj_put k v kvs =
     (if map_of kvs k \<noteq> None then map (\<lambda>p. if fst p = k then (k, v) else p) kvs
      else if is_array_index k
      then takeWhile (index_before k) kvs @ (k, v) # dropWhile (index_before k) kvs
      else kvs @ [(k, v)])"

text \<open>
  The own enumerable properties a spread \<^verbatim>\<open>{...x}\<close> copies: those of an object, the
  elements of an array under their indices, the code units of a string under their
  indices (one per character for ASCII text), none for null, booleans and numbers.
\<close>

fun own_entries :: "json \<Rightarrow> (string \<times> json) list" where
  "own_entries (JObj kvs) = kvs"
| "own_entries (JArr xs) = zip (map (\<lambda>i. show_nat (int i)) [0..<length xs]) xs"
| "own_entries (JStr s) =
     zip (map (\<lambda>i. show_nat (int i)) [0..<length s]) (map (\<lambda>c. JStr [c]) s)"
| "own_entries v = []"

text \<open>\<^verbatim>\<open>{ ...target, ...source }\<close> continued from the properties already copied.\<close>

definition spread :: "(string \<times> json) list \<Rightarrow> json \<Rightarrow> (string \<times> json) list" where
  "spread target source = foldl (\<lambda>obj p. obj_put (fst p) (snd p) obj) target (own_entries source)"

subsection \<open>\<^verbatim>\<open>JSON.stringify\<close>\<close>

definition control_chars :: string where
  "control_chars =
     [CHR 0x00, CHR 0x01, CHR 0x02, CHR 0x03, CHR 0x04, CHR 0x05, CHR 0x06, CHR 0x07,
      CHR 0x08, CHR 0x09, CHR 0x0A, CHR 0x0B, CHR 0x0C, CHR 0x0D, CHR 0x0E, CHR 0x0F,
      CHR 0x10, CHR 0x11, CHR 0x12, CHR 0x13, CHR 0x14, CHR 0x15, CHR 0x16, CHR 0x17,
      CHR 0x18, CHR 0x19, CHR 0x1A, CHR 0x1B, CHR 0x1C, CHR 0x1D, CHR 0x1E, CHR 0x1F]"

definition hex_char :: "int \<Rightarrow> char" where
  "hex_char d = ''0123456789abcdef'' ! nat (d mod 16)"

text \<open>
  \<^verbatim>\<open>QuoteJSONString\<close>: the quote and the backslash are escaped, a control character is
  written by its short escape or as \<^verbatim>\<open>\u00XX\<close>, every other character is itself.
  Strings are taken to be well-formed Unicode text: a lone surrogate, which
  \<^verbatim>\<open>JSON.stringify\<close> would write as an escape, does not occur.
  (\<open>CHR 0x22\<close> is the double quote, \<open>CHR 0x5C\<close> the backslash.)
\<close>

definition json_escape :: "char \<Rightarrow> string" where
  "json_escape c =
     (if c = CHR 0x22 then [CHR 0x5C, CHR 0x22]
      else if c = CHR 0x5C then [CHR 0x5C, CHR 0x5C]
      else if c = CHR 0x08 then [CHR 0x5C, CHR ''b'']
      else if c = CHR 0x09 then [CHR 0x5C, CHR ''t'']
      else if c = CHR 0x0A then [CHR 0x5C, CHR ''n'']
      else if c = CHR 0x0C then [CHR 0x5C, CHR ''f'']
      else if c = CHR 0x0D then [CHR 0x5C, CHR ''r'']
      else if c \<in> set control_chars
      then [CHR 0x5C, CHR ''u'', CHR ''0'', CHR ''0'',
            hex_char (of_char c div 16), hex_char (of_char c mod 16)]
      else [c])"

definition quote :: "string \<Rightarrow> string" where
  "quote s = CHR 0x22 # concat (map json_escape s) @ [CHR 0x22]"

text \<open>Joining the pieces of a list with a separator.\<close>

fun join :: "string \<Rightarrow> string list \<Rightarrow> string" where
  "join sep [] = []"
| "join sep [x] = x"
| "join sep (x # y # ys) = x @ sep @ join sep (y # ys)"

text \<open>
  \<^verbatim>\<open>SerializeJSONProperty\<close> with its two strings: \<open>gap\<close>, the indentation unit (empty
  for the compact form), and \<open>indent\<close>, the current indentation. With an empty gap the
  elements of an array or object are separated by a comma and a key from its value by a
  colon; otherwise each element is on a line of its own, indented by one more gap than
  its parent, and the colon is followed by a space. \<open>line_break\<close> is what precedes an
  element or the closing bracket.
\<close>

definition line_break :: "string \<Rightarrow> string \<Rightarrow> string" where
  "line_break gap indent = (if gap = [] then [] else CHR 0x0A # indent)"

definition colon :: "string \<Rightarrow> string" where
  "colon gap = (if gap = [] then '':'' else '': '')"

fun serialize :: "string \<Rightarrow> string \<Rightarrow> json \<Rightarrow> string" where
  "serialize gap indent JNull = ''null''"
| "serialize gap indent (JBool b) = (if b then ''true'' else ''false'')"
| "serialize gap indent (JNum m e) = number_to_string m e"
| "serialize gap indent (JStr s) = quote s"
| "serialize gap indent (JArr xs) =
     (if xs = [] then ''[]''
      else ''['' @ line_break gap (indent @ gap)
           @ join ('','' @ line_break gap (indent @ gap)) (map (serialize gap (indent @ gap)) xs)
           @ line_break gap indent @ '']'')"
| "serialize gap indent (JObj kvs) =
     (if kvs = [] then ''{}''
      else ''{'' @ line_break gap (indent @ gap)
           @ join ('','' @ line_break gap (indent @ gap))
               (map (\<lambda>p. quote (fst p) @ colon gap @ serialize gap (indent @ gap) (snd p)) kvs)
           @ line_break gap indent @ ''}'')"

text \<open>\<^verbatim>\<open>JSON.stringify(value)\<close>, the compact form, and \<^verbatim>\<open>JSON.stringify(value, null, 2)\<close>.\<close>

definition JSON_stringify :: "json \<Rightarrow> string" where
  "JSON_stringify v = serialize [] [] v"

definition JSON_stringify_pretty :: "json \<Rightarrow> string" where
  "JSON_stringify_pretty v = serialize ''  '' [] v"

subsection \<open>\<^verbatim>\<open>JSON.parse\<close>\<close>

text \<open>JSON white space: space, tab, line feed, carriage return.\<close>

definition is_ws :: "char \<Rightarrow> bool" where
  "is_ws c = (c \<in> set [CHR 0x20, CHR 0x09, CHR 0x0A, CHR 0x0D])"

definition skip_ws :: "string \<Rightarrow> string" where
  "skip_ws s = dropWhile is_ws s"

definition hex_value :: "char \<Rightarrow> int option" where
  "hex_value c =
     map_of (zip ''0123456789abcdefABCDEF''
                 [0, 1, 2, 3, 4, 5, 6, 7, 8, 9, 10, 11, 12, 13, 14, 15, 10, 11, 12, 13, 14, 15]) c"

text \<open>Four hexadecimal digits at the head of a string: the code unit they write.\<close>

definition hex4 :: "string \<Rightarrow> int option" where
  "hex4 s =
     (case map hex_value (take 4 s) of
        [Some a, Some b, Some c, Some d] \<Rightarrow> Some (((a * 16 + b) * 16 + c) * 16 + d)
      | _ \<Rightarrow> None)"

text \<open>The UTF-8 bytes of a code point.\<close>

definition utf8_encode :: "int \<Rightarrow> string" where
  "utf8_encode cp =
     (if cp < 128 then [char_of cp]
      else if cp < 2048 then [char_of (192 + cp div 64), char_of (128 + cp mod 64)]
      else if cp < 65536
      then [char_of (224 + cp div 4096), char_of (128 + cp div 64 mod 64),
            char_of (128 + cp mod 64)]
      else [char_of (240 + cp div 262144), char_of (128 + cp div 4096 mod 64),
            char_of (128 + cp div 64 mod 64), char_of (128 + cp mod 64)])"

text \<open>
  What follows \<^verbatim>\<open>\u\<close> in a string: four hexadecimal digits, and when they write a
  high surrogate and a \<^verbatim>\<open>\u\<close> escape of a low surrogate follows, that escape too. The
  result is the text written and the number of characters read (4 or 10).
\<close>

definition unicode_escape :: "string \<Rightarrow> (string \<times> nat) option" where
  "unicode_escape s =
     (case hex4 s of
        None \<Rightarrow> None
      | Some hi \<Rightarrow>
          if 55296 \<le> hi \<and> hi < 56320 \<and> take 2 (drop 4 s) = [CHR 0x5C, CHR ''u''] then
            (case hex4 (drop 6 s) of
               Some lo \<Rightarrow>
                 if 56320 \<le> lo \<and> lo < 57344
                 then Some (utf8_encode (65536 + (hi - 55296) * 1024 + (lo - 56320)), 10)
                 else Some (utf8_encode hi, 4)
             | None \<Rightarrow> Some (utf8_encode hi, 4))
          else Some (utf8_encode hi, 4))"

definition simple_escape :: "char \<Rightarrow> char option" where
  "simple_escape c =
     map_of [(CHR 0x22, CHR 0x22), (CHR 0x5C, CHR 0x5C), (CHR ''/'', CHR ''/''),
             (CHR ''b'', CHR 0x08), (CHR ''f'', CHR 0x0C), (CHR ''n'', CHR 0x0A),
             (CHR ''r'', CHR 0x0D), (CHR ''t'', CHR 0x09)] c"

definition prepend :: "string \<Rightarrow> (string \<times> string) option \<Rightarrow> (string \<times> string) option" where
  "prepend a r = (case r of None \<Rightarrow> None | Some (s, rest) \<Rightarrow> Some (a @ s, rest))"

text \<open>
  The characters of a string after its opening quote, up to the closing quote: the text
  of the string and the rest of the input. A raw control character, an unknown escape
  or a missing closing quote is a syntax error (\<open>None\<close>).
\<close>

function parse_string :: "string \<Rightarrow> (string \<times> string) option" where
  "parse_string [] = None"
| "parse_string (c # r) =
     (if c = CHR 0x22 then Some ([], r)
      else if c = CHR 0x5C then
        (case r of
           [] \<Rightarrow> None
         | x # r1 \<Rightarrow>
             if x = CHR ''u'' then
               (case unicode_escape r1 of
                  None \<Rightarrow> None
                | Some (bytes, n) \<Rightarrow> prepend bytes (parse_string (drop n r1)))
             else
               (case simple_escape x of
                  None \<Rightarrow> None
                | Some ch \<Rightarrow> prepend [ch] (parse_string r1)))
      else if c \<in> set control_chars then None
      else prepend [c] (parse_string r))"
  by pat_completeness auto
termination
  by (relation "measure length") auto

text \<open>
  A number: an optional minus, an integer part without a leading zero, an optional
  fraction with at least one digit, an optional exponent with at least one digit.
  \<open>parse_exponent\<close> reads the exponent after mantissa \<open>m\<close> and decimal exponent
  \<open>e\<close>, \<open>parse_digits\<close> what follows the sign.
\<close>

definition parse_exponent :: "int \<Rightarrow> int \<Rightarrow> string \<Rightarrow> (json \<times> string) option" where
  "parse_exponent m e s =
     (case s of
        [] \<Rightarrow> Some (normal_number m e, s)
      | c # r \<Rightarrow>
          if c = CHR ''e'' \<or> c = CHR ''E'' then
            (let neg = (take 1 r = ''-'');
                 r1 = (if take 1 r = ''-'' \<or> take 1 r = ''+'' then drop 1 r else r);
                 ds = takeWhile is_digit r1
             in if ds = [] then None
                else Some (normal_number m
                             (e + (if neg then - digits_value ds else digits_value ds)),
                           dropWhile is_digit r1))
          else Some (normal_number m e, s))"

definition signed :: "bool \<Rightarrow> int \<Rightarrow> int" where
  "signed neg n = (if neg then - n else n)"

definition bad_integer_part :: "string \<Rightarrow> bool" where
  "bad_integer_part ip = (ip = [] \<or> (hd ip = CHR ''0'' \<and> length ip > 1))"

definition parse_digits :: "bool \<Rightarrow> string \<Rightarrow> (json \<times> string) option" where
  "parse_digits neg s =
     (if bad_integer_part (takeWhile is_digit s) then None
      else
        (case dropWhile is_digit s of
           c # r2 \<Rightarrow>
             if c = CHR ''.'' then
               (if takeWhile is_digit r2 = [] then None
                else parse_exponent
                       (signed neg (digits_value (takeWhile is_digit s @ takeWhile is_digit r2)))
                       (- int (length (takeWhile is_digit r2))) (dropWhile is_digit r2))
             else parse_exponent (signed neg (digits_value (takeWhile is_digit s))) 0 (c # r2)
         | [] \<Rightarrow> parse_exponent (signed neg (digits_value (takeWhile is_digit s))) 0 []))"

definition parse_number :: "string \<Rightarrow> (json \<times> string) option" where
  "parse_number s =
     (if take 1 s = ''-'' then parse_digits True (drop 1 s) else parse_digits False s)"

text \<open>
  The recursive descent over values, array elements and object members. Every call
  spends one unit of fuel; \<open>parse_elements\<close> and \<open>parse_members\<close> start after the
  opening bracket, at a position where the container is known not to be empty. The
  members of an object are created in the order of the text, a repeated key taking its
  last value.
\<close>

fun parse_value :: "nat \<Rightarrow> string \<Rightarrow> (json \<times> string) option"
  and parse_elements :: "nat \<Rightarrow> string \<Rightarrow> (json list \<times> string) option"
  and parse_members :: "nat \<Rightarrow> string \<Rightarrow> ((string \<times> json) list \<times> string) option"
where
  "parse_value 0 s = None"
| "parse_value (Suc n) s =
     (case skip_ws s of
        [] \<Rightarrow> None
      | c # r \<Rightarrow>
          if c = CHR ''{'' then
            (if take 1 (skip_ws r) = ''}'' then Some (JObj [], drop 1 (skip_ws r))
             else (case parse_members n r of
                     None \<Rightarrow> None
                   | Some (kvs, r') \<Rightarrow>
                       Some (JObj (foldl (\<lambda>obj p. obj_put (fst p) (snd p) obj) [] kvs), r')))
          else if c = CHR ''['' then
            (if take 1 (skip_ws r) = '']'' then Some (JArr [], drop 1 (skip_ws r))
             else (case parse_elements n r of
                     None \<Rightarrow> None
                   | Some (vs, r') \<Rightarrow> Some (JArr vs, r')))
          else if c = CHR 0x22 then
            (case parse_string r of None \<Rightarrow> None | Some (str, r') \<Rightarrow> Some (JStr str, r'))
          else if take 4 (c # r) = ''true'' then Some (JBool True, drop 4 (c # r))
          else if take 5 (c # r) = ''false'' then Some (JBool False, drop 5 (c # r))
          else if take 4 (c # r) = ''null'' then Some (JNull, drop 4 (c # r))
          else parse_number (c # r))"
| "parse_elements 0 s = None"
| "parse_elements (Suc n) s =
     (case parse_value n s of
        None \<Rightarrow> None
      | Some (v, r) \<Rightarrow>
          (case skip_ws r of
             [] \<Rightarrow> None
           | c # r' \<Rightarrow>
               if c = CHR '','' then
                 (case parse_elements n r' of
                    None \<Rightarrow> None
                  | Some (vs, r'') \<Rightarrow> Some (v # vs, r''))
               else if c = CHR '']'' then Some ([v], r')
               else None))"
| "parse_members 0 s = None"
| "parse_members (Suc n) s =
     (case skip_ws s of
        [] \<Rightarrow> None
      | q # r \<Rightarrow>
          if q \<noteq> CHR 0x22 then None
          else
            (case parse_string r of
               None \<Rightarrow> None
             | Some (k, r1) \<Rightarrow>
                 (case skip_ws r1 of
                    [] \<Rightarrow> None
                  | c # r2 \<Rightarrow>
                      if c \<noteq> CHR '':'' then None
                      else
                        (case parse_value n r2 of
                           None \<Rightarrow> None
                         | Some (v, r3) \<Rightarrow>
                             (case skip_ws r3 of
                                [] \<Rightarrow> None
                              | d # r4 \<Rightarrow>
                                  if d = CHR '','' then
                                    (case parse_members n r4 of
                                       None \<Rightarrow> None
                                     | Some (kvs, r5) \<Rightarrow> Some ((k, v) # kvs, r5))
                                  else if d = CHR ''}'' then Some ([(k, v)], r4)
                                  else None)))))"

text \<open>
  \<^verbatim>\<open>JSON.parse(text)\<close>: one value, white space around it, nothing else; any other text
  raises SyntaxError. Between two recursive calls at least one character is read, or the
  call before read one, so twice the length of the text is fuel enough.
\<close>

definition JSON_parse :: "string \<Rightarrow> error + json" where
  "JSON_parse text =
     (case parse_value (2 * length text + 2) text of
        None \<Rightarrow> Inl SyntaxError
      | Some (v, rest) \<Rightarrow> if skip_ws rest = [] then Inr v else Inl SyntaxError)"

subsection \<open>Values that \<^verbatim>\<open>JSON.parse\<close> reads back\<close>

text \<open>
  \<open>number_end\<close>: the text after a number does not continue it. A value is well formed
  when its numbers print and read back as themselves, and its objects list their keys in
  enumeration order without repetition (creating the properties one by one gives the same
  list); strings, booleans and null always are. \<open>fuel\<close> bounds the depth of the
  parser's recursion on the text of a value; \<open>value_start\<close> holds of the first
  character of such a text.
\<close>

definition number_end :: "string \<Rightarrow> bool" where
  "number_end r =
     (case r of [] \<Rightarrow> True
      | c # _ \<Rightarrow> \<not> is_digit c \<and> c \<noteq> CHR ''.'' \<and> c \<noteq> CHR ''e'' \<and> c \<noteq> CHR ''E'')"

fun well_formed :: "json \<Rightarrow> bool" where
  "well_formed (JNum m e) = (parse_number (number_to_string m e) = Some (JNum m e, []))"
| "well_formed (JArr xs) = list_all well_formed xs"
| "well_formed (JObj kvs) =
     (foldl (\<lambda>obj p. obj_put (fst p) (snd p) obj) [] kvs = kvs
      \<and> list_all (\<lambda>p. well_formed (snd p)) kvs)"
| "well_formed v = True"

fun fuel :: "json \<Rightarrow> nat" where
  "fuel (JArr xs) = Suc (length xs + sum_list (map fuel xs))"
| "fuel (JObj kvs) = Suc (length kvs + sum_list (map (\<lambda>p. fuel (snd p)) kvs))"
| "fuel v = 1"

definition value_start :: "char \<Rightarrow> bool" where
  "value_start c = (\<not> is_ws c \<and> c \<noteq> CHR '']'' \<and> c \<noteq> CHR ''}'')"

section \<open>The storage service (storageService)\<close>

text \<open>
  \<^verbatim>\<open>localStorage\<close> is a map from keys to strings; \<^verbatim>\<open>getItem\<close> of an absent key is
  null (\<open>None\<close>). The store is taken to have room: \<^verbatim>\<open>setItem\<close> does not raise a
  quota error.
\<close>

type_synonym storage = "string \<rightharpoonup> string"

definition KEYS_NOTES :: string where
  "KEYS_NOTES = ''mononote_notes''"

definition KEYS_TRANSACTIONS :: string where
  "KEYS_TRANSACTIONS = ''mononote_transactions''"

definition KEYS_SETTINGS :: string where
  "KEYS_SETTINGS = ''mononote_settings''"

text \<open>
  The object literal
  \<^verbatim>\<open>{ headerQuote: DEFAULT_QUOTE, noteCategories: DEFAULT_NOTE_CATEGORIES,
     ledgerCategories: DEFAULT_LEDGER_CATEGORIES }\<close>
  that the service writes out in five places.
\<close>

definition default_settings :: "(string \<times> json) list" where
  "default_settings =
     [(''headerQuote'', JStr DEFAULT_QUOTE),
      (''noteCategories'', JArr (map JStr DEFAULT_NOTE_CATEGORIES)),
      (''ledgerCategories'', JArr (map JStr DEFAULT_LEDGER_CATEGORIES))]"

text \<open>
  Truthiness of a value read from a parsed document, with \<open>None\<close> for \<^verbatim>\<open>undefined\<close>:
  undefined, null, false, zero and the empty string are falsy, everything else (every
  array and object too) is truthy.
\<close>

fun truthy :: "json option \<Rightarrow> bool" where
  "truthy None = False"
| "truthy (Some JNull) = False"
| "truthy (Some (JBool b)) = b"
| "truthy (Some (JNum m e)) = (m \<noteq> 0)"
| "truthy (Some (JStr s)) = (s \<noteq> [])"
| "truthy (Some (JArr xs)) = True"
| "truthy (Some (JObj kvs)) = True"

text \<open>
  Reading \<^verbatim>\<open>data.notes\<close>, \<^verbatim>\<open>data.transactions\<close> or \<^verbatim>\<open>data.settings\<close>: a TypeError on
  null, the own property of an object, undefined on any other value (no prototype has a
  property of one of these three names).
\<close>

fun get_field :: "json \<Rightarrow> string \<Rightarrow> error + json option" where
  "get_field JNull k = Inl TypeError"
| "get_field (JObj kvs) k = Inr (map_of kvs k)"
| "get_field v k = Inr None"

fun isArray :: "json option \<Rightarrow> bool" where
  "isArray (Some (JArr xs)) = True"
| "isArray v = False"

text \<open>
  \<^verbatim>\<open>data ? JSON.parse(data) : []\<close> for the string or null that \<^verbatim>\<open>getItem\<close> returned:
  null and the empty string are falsy.
\<close>

definition parse_or_empty :: "string option \<Rightarrow> error + json" where
  "parse_or_empty data =
     (case data of
        None \<Rightarrow> Inr (JArr [])
      | Some str \<Rightarrow> if str \<noteq> [] then JSON_parse str else Inr (JArr []))"

text \<open>
  \<^verbatim>\<open>
  getNotes: () => {
    try { const data = localStorage.getItem(KEYS.NOTES); return data ? JSON.parse(data) : []; }
    catch { return []; }
  }
  \<close>
  The result of every operation is a sum: \<open>Inl\<close> an exception that leaves the function,
  \<open>Inr\<close> the value returned.
\<close>

definition getNotes :: "storage \<Rightarrow> error + json" where
  "getNotes ls =
     (case parse_or_empty (ls KEYS_NOTES) of
        Inl e \<Rightarrow> Inr (JArr [])
      | Inr v \<Rightarrow> Inr v)"

definition getTransactions :: "storage \<Rightarrow> error + json" where
  "getTransactions ls =
     (case parse_or_empty (ls KEYS_TRANSACTIONS) of
        Inl e \<Rightarrow> Inr (JArr [])
      | Inr v \<Rightarrow> Inr v)"

text \<open>
  \<^verbatim>\<open>
  getSettings: () => {
    try { const data = localStorage.getItem(KEYS.SETTINGS); if (data) return JSON.parse(data); }
    catch { /* ignore */ }
    return { headerQuote: DEFAULT_QUOTE, noteCategories: ..., ledgerCategories: ... };
  }
  \<close>
\<close>

definition getSettings :: "storage \<Rightarrow> error + json" where
  "getSettings ls =
     (case ls KEYS_SETTINGS of
        None \<Rightarrow> Inr (JObj default_settings)
      | Some data \<Rightarrow>
          if data \<noteq> [] then
            (case JSON_parse data of
               Inl e \<Rightarrow> Inr (JObj default_settings)
             | Inr v \<Rightarrow> Inr v)
          else Inr (JObj default_settings))"

text \<open>\<^verbatim>\<open>saveNotes\<close>, \<^verbatim>\<open>saveTransactions\<close>, \<^verbatim>\<open>saveSettings\<close>: serialize and overwrite.\<close>

definition saveNotes :: "json \<Rightarrow> storage \<Rightarrow> storage" where
  "saveNotes notes ls = ls(KEYS_NOTES \<mapsto> JSON_stringify notes)"

definition saveTransactions :: "json \<Rightarrow> storage \<Rightarrow> storage" where
  "saveTransactions txs ls = ls(KEYS_TRANSACTIONS \<mapsto> JSON_stringify txs)"

definition saveSettings :: "json \<Rightarrow> storage \<Rightarrow> storage" where
  "saveSettings settings ls = ls(KEYS_SETTINGS \<mapsto> JSON_stringify settings)"

text \<open>
  The settings of the export: the defaults, overridden by the stored settings when these
  parse. Only this parse is inside a \<^verbatim>\<open>try\<close>:
  \<^verbatim>\<open>
  let settings = { headerQuote: DEFAULT_QUOTE, ... };
  const settingsStr = localStorage.getItem(KEYS.SETTINGS);
  if (settingsStr) {
    try { const parsedSettings = JSON.parse(settingsStr);
          settings = { ...settings, ...parsedSettings }; }
    catch (e) { console.error('Failed to parse settings for export', e); }
  }
  \<close>
\<close>

definition export_settings :: "storage \<Rightarrow> (string \<times> json) list" where
  "export_settings ls =
     (case ls KEYS_SETTINGS of
        None \<Rightarrow> default_settings
      | Some settingsStr \<Rightarrow>
          if settingsStr \<noteq> [] then
            (case JSON_parse settingsStr of
               Inl e \<Rightarrow> default_settings
             | Inr parsedSettings \<Rightarrow> spread (spread [] (JObj default_settings)) parsedSettings)
          else default_settings)"

text \<open>
  \<^verbatim>\<open>
  exportData: () => {
    const notesStr = localStorage.getItem(KEYS.NOTES);
    const notes = notesStr ? JSON.parse(notesStr) : [];
    const transStr = localStorage.getItem(KEYS.TRANSACTIONS);
    const transactions = transStr ? JSON.parse(transStr) : [];
    ... settings as above ...
    const data = { notes, transactions, settings,
                   exportDate: new Date().toISOString(), version: '1.0' };
    return JSON.stringify(data, null, 2);
  }
  \<close>
  The two parses at the top are outside every \<^verbatim>\<open>try\<close>: their exception leaves the
  function. \<open>now\<close> is the text \<^verbatim>\<open>new Date().toISOString()\<close> returns.
\<close>

definition export_document :: "json \<Rightarrow> json \<Rightarrow> (string \<times> json) list \<Rightarrow> string \<Rightarrow> json" where
  "export_document notes txs settings now =
     JObj [(''notes'', notes), (''transactions'', txs), (''settings'', JObj settings),
           (''exportDate'', JStr now), (''version'', JStr ''1.0'')]"

definition exportData :: "string \<Rightarrow> storage \<Rightarrow> error + string" where
  "exportData now ls =
     (case parse_or_empty (ls KEYS_NOTES) of
        Inl e \<Rightarrow> Inl e
      | Inr notes \<Rightarrow>
          (case parse_or_empty (ls KEYS_TRANSACTIONS) of
             Inl e \<Rightarrow> Inl e
           | Inr txs \<Rightarrow>
               Inr (JSON_stringify_pretty
                      (export_document notes txs (export_settings ls) now))))"

text \<open>
  \<^verbatim>\<open>
  importData: (jsonString) => {
    try {
      const data = JSON.parse(jsonString);
      if (!Array.isArray(data.notes) && !Array.isArray(data.transactions)) {
        throw new Error('Invalid data format');
      }
      if (data.notes) localStorage.setItem(KEYS.NOTES, JSON.stringify(data.notes));
      if (data.transactions)
        localStorage.setItem(KEYS.TRANSACTIONS, JSON.stringify(data.transactions));
      if (data.settings) {
        const currentDefaults = { headerQuote: DEFAULT_QUOTE, ... };
        const mergedSettings = { ...currentDefaults, ...data.settings };
        localStorage.setItem(KEYS.SETTINGS, JSON.stringify(mergedSettings));
      }
      return true;
    } catch (e) { console.error('Import failed:', e); return false; }
  }
  \<close>
  \<open>import_writes\<close> is the part after the check: the three conditional writes, in order.
  Every exception of the body (the parse, the read of a field of null, the explicit throw)
  comes before the first write, so the store of a failed import is the store before.
\<close>

definition write_if_truthy :: "string \<Rightarrow> json option \<Rightarrow> storage \<Rightarrow> storage" where
  "write_if_truthy key field ls =
     (case field of
        None \<Rightarrow> ls
      | Some v \<Rightarrow> if truthy (Some v) then ls(key \<mapsto> JSON_stringify v) else ls)"

definition write_settings :: "json option \<Rightarrow> storage \<Rightarrow> storage" where
  "write_settings field ls =
     (case field of
        None \<Rightarrow> ls
      | Some v \<Rightarrow>
          if truthy (Some v)
          then ls(KEYS_SETTINGS \<mapsto>
                    JSON_stringify (JObj (spread (spread [] (JObj default_settings)) v)))
          else ls)"

definition import_writes :: "json option \<Rightarrow> json option \<Rightarrow> json option \<Rightarrow> storage \<Rightarrow> storage" where
  "import_writes notes txs settings ls =
     write_settings settings
       (write_if_truthy KEYS_TRANSACTIONS txs
          (write_if_truthy KEYS_NOTES notes ls))"

definition importData :: "string \<Rightarrow> storage \<Rightarrow> bool \<times> storage" where
  "importData jsonString ls =
     (case JSON_parse jsonString of
        Inl e \<Rightarrow> (False, ls)
      | Inr data \<Rightarrow>
          (case get_field data ''notes'' of
             Inl e \<Rightarrow> (False, ls)
           | Inr notes \<Rightarrow>
               (case get_field data ''transactions'' of
                  Inl e \<Rightarrow> (False, ls)
                | Inr txs \<Rightarrow>
                    if \<not> isArray notes \<and> \<not> isArray txs then (False, ls)
                    else
                      (case get_field data ''settings'' of
                         Inl e \<Rightarrow> (False, ls)
                       | Inr settings \<Rightarrow>
                           (True, import_writes notes txs settings ls)))))"

subsection \<open>The import as the specification words it\<close>

text \<open>
  A field of the parsed document (absent when the document is no object), and the
  content of a key after a successful import: the text of the field when the field is
  truthy, the old content otherwise. \<open>merged_text\<close> is the serialization of the
  defaults overridden by the fields of the document's settings.
\<close>

definition document_field :: "json \<Rightarrow> string \<Rightarrow> json option" where
  "document_field doc k = (case doc of JObj kvs \<Rightarrow> map_of kvs k | _ \<Rightarrow> None)"

definition written :: "json option \<Rightarrow> (json \<Rightarrow> string) \<Rightarrow> string option \<Rightarrow> string option" where
  "written field text old =
     (case field of
        None \<Rightarrow> old
      | Some v \<Rightarrow> if truthy (Some v) then Some (text v) else old)"

definition merged_text :: "json \<Rightarrow> string" where
  "merged_text v = JSON_stringify (JObj (spread default_settings v))"

section \<open>Example data\<close>

text \<open>Concrete inputs at which the theorems below are instantiated.\<close>

definition lunch :: "rat Transaction" where
  "lunch = \<lparr> tx_id = ''t1'', amount = 25, tx_type = Expense, category = ''food-out'',
             description = ''lunch'', date = ''2024-01-01'', timestamp = 1704100000000 \<rparr>"

definition rent :: "rat Transaction" where
  "rent = \<lparr> tx_id = ''t0'', amount = 900, tx_type = Expense, category = ''rent'',
            description = ''rent'', date = ''2024-01-01'', timestamp = 1704090000000 \<rparr>"


text \<open>A store whose settings document has one field only; a store whose notes are cut off.\<close>

definition store_partial_settings :: storage where
  \<open>store_partial_settings = [KEYS_SETTINGS \<mapsto> ''{"headerQuote":"x"}'']\<close>

definition store_corrupt_notes :: storage where
  \<open>store_corrupt_notes = [KEYS_NOTES \<mapsto> ''[{"id":"n1","content":"mil'']\<close>


text \<open>
  A store as the application writes it: every key holds what \<^verbatim>\<open>saveNotes\<close>,
  \<^verbatim>\<open>saveTransactions\<close> and \<^verbatim>\<open>saveSettings\<close> serialize. (The timestamp 1704100000000
  is \<open>17041 \<times> 10\<^sup>8\<close>, the amount 12.5 is \<open>125 \<times> 10\<^sup>-\<^sup>1\<close>.)
\<close>

definition export_time :: string where
  "export_time = ''2024-01-01T00:00:00.000Z''"

definition saved_notes :: json where
  "saved_notes = JArr [JObj [(''id'', JStr ''n1''), (''content'', JStr ''milk''),
     (''category'', JStr ''todo''), (''createdAt'', JNum 17041 8), (''color'', JStr ''bg-white'')]]"

definition saved_transactions_json :: json where
  "saved_transactions_json = JArr [JObj [(''id'', JStr ''t1''), (''amount'', JNum 125 (- 1)),
     (''type'', JStr ''expense''), (''category'', JStr ''food''), (''description'', JStr ''lunch''),
     (''date'', JStr ''2024-01-01''), (''timestamp'', JNum 17041 8)]]"

definition saved_settings :: "(string \<times> json) list" where
  "saved_settings = [(''headerQuote'', JStr ''hello''), (''noteCategories'', JArr [JStr ''todo'']),
     (''ledgerCategories'', JArr [JStr ''food'', JStr ''rent''])]"

definition store_saved :: storage where
  "store_saved =
     saveSettings (JObj saved_settings)
       (saveTransactions saved_transactions_json (saveNotes saved_notes Map.empty))"

section \<open>Aggregation: proofs\<close>

lemma TransactionType_not_Income: "(ty \<noteq> Income) = (ty = Expense)"
  by (cases ty) simp_all

lemma foldl_summary_step:
  "foldl summary_step (i, e) ts =
     (i + sum_list (map amount (filter (\<lambda>t. tx_type t = Income) ts)),
      e + sum_list (map amount (filter (\<lambda>t. tx_type t = Expense) ts)))"
  by (induction ts arbitrary: i e) (simp_all add: summary_step_def TransactionType_not_Income)

text \<open>
  Claim C9: \<^verbatim>\<open>summary\<close> returns as income the sum of the amounts of the transactions of
  type income, as expense the sum of the amounts of type expense, and as total the income
  minus the expense; the empty list gives zero in all three fields, and the three
  transactions of the specification's example (100 income, 40 and 10 expense, whatever
  their other fields) give income 100, expense 50 and total 50.
\<close>

theorem summary_totals:
  "income (summary ts) = sum_list (map amount (filter (\<lambda>t. tx_type t = Income) ts))
   \<and> expense (summary ts) = sum_list (map amount (filter (\<lambda>t. tx_type t = Expense) ts))
   \<and> total (summary ts) = income (summary ts) - expense (summary ts)
   \<and> summary [] = \<lparr> income = 0, expense = 0, total = 0 \<rparr>
   \<and> summary
        [\<lparr> tx_id = i1, amount = 100, tx_type = Income, category = c1, description = d1,
           date = ''2024-01-01'', timestamp = s1 \<rparr>,
         \<lparr> tx_id = i2, amount = 40, tx_type = Expense, category = c2, description = d2,
           date = ''2024-01-01'', timestamp = s2 \<rparr>,
         \<lparr> tx_id = i3, amount = 10, tx_type = Expense, category = c3, description = d3,
           date = ''2024-01-02'', timestamp = s3 \<rparr>]
       = \<lparr> income = 100, expense = 50, total = 50 \<rparr>"
  by (simp add: summary_def foldl_summary_step summary_step_def)

lemma sort_insert_insort_key:
  fixes f :: "'a \<Rightarrow> 'b::linordered_idom"
  shows "sort_insert (\<lambda>a b. f b - f a) x ys = insort_key (\<lambda>t. - f t) x ys"
  by (induction ys) simp_all

lemma array_sort_sort_key:
  fixes f :: "'a \<Rightarrow> 'b::linordered_idom"
  shows "array_sort (\<lambda>a b. f b - f a) xs = sort_key (\<lambda>t. - f t) xs"
  by (induction xs) (simp_all add: array_sort_def sort_key_def sort_insert_insort_key)

lemma mset_array_sort:
  fixes f :: "'a \<Rightarrow> 'b::linordered_idom"
  shows "mset (array_sort (\<lambda>a b. f b - f a) xs) = mset xs"
  by (simp add: array_sort_sort_key)

lemma sorted_array_sort:
  fixes f :: "'a \<Rightarrow> 'b::linordered_idom"
  shows "sorted_wrt (\<lambda>a b. f b \<le> f a) (array_sort (\<lambda>a b. f b - f a) xs)"
proof -
  have "sorted (map (\<lambda>t. - f t) (sort_key (\<lambda>t. - f t) xs))"
    by (rule sorted_sort_key)
  then show ?thesis
    by (simp add: array_sort_sort_key sorted_map)
qed

lemma foldl_daily_step:
  "foldl daily_step (i, e, m) ts =
     (i + sum_list (map amount (filter (\<lambda>t. tx_type t = Income) ts)),
      e + sum_list (map amount (filter (\<lambda>t. tx_type t = Expense) ts)),
      foldl category_add m ts)"
  by (induction ts arbitrary: i e m) (simp_all add: daily_step_def TransactionType_not_Income)

lemma sum_list_filter_mset:
  fixes g :: "'a \<Rightarrow> rat"
  assumes "mset xs = mset ys"
  shows "sum_list (map g (filter P xs)) = sum_list (map g (filter P ys))"
proof -
  have "mset (map g (filter P xs)) = mset (map g (filter P ys))"
    using assms by (metis mset_filter mset_map)
  then show ?thesis
    by (metis sum_mset_sum_list)
qed

lemma dailyStats_fields:
  "dayTransactions (dailyStats ts d) = day_list ts d"
  "day_income (dailyStats ts d) = sum_list (map amount (filter (\<lambda>t. tx_type t = Income) (day_list ts d)))"
  "day_expense (dailyStats ts d) = sum_list (map amount (filter (\<lambda>t. tx_type t = Expense) (day_list ts d)))"
  "totalVolume (dailyStats ts d) = day_income (dailyStats ts d) + day_expense (dailyStats ts d)"
  "pieData (dailyStats ts d) = array_sort (\<lambda>a b. entry_value b - entry_value a)
       (pie_entries 0 0 (foldl category_add [] (day_list ts d)))"
  by (simp_all add: dailyStats_def Let_def foldl_daily_step day_list_def)

text \<open>
  Claim C7: \<^verbatim>\<open>dailyStats\<close> keeps exactly the transactions whose date is the given
  one (as a multiset: each as often as it occurs), returns them ordered by descending
  timestamp, computes the day's income and expense over them, and sets
  \<^verbatim>\<open>totalVolume\<close> to income plus expense. On the specification's example and the
  date 2024-01-01 the result has income 100, expense 40, totalVolume 140 and two
  breakdown entries.
\<close>

theorem dailyStats_day:
  "mset (dayTransactions (dailyStats ts d)) = mset (filter (\<lambda>t. date t = d) ts)
   \<and> sorted_wrt (\<lambda>a b. timestamp b \<le> timestamp a) (dayTransactions (dailyStats ts d))
   \<and> day_income (dailyStats ts d)
       = sum_list (map amount (filter (\<lambda>t. tx_type t = Income) (filter (\<lambda>t. date t = d) ts)))
   \<and> day_expense (dailyStats ts d)
       = sum_list (map amount (filter (\<lambda>t. tx_type t = Expense) (filter (\<lambda>t. date t = d) ts)))
   \<and> totalVolume (dailyStats ts d) = day_income (dailyStats ts d) + day_expense (dailyStats ts d)
   \<and> (let r = dailyStats
        [\<lparr> tx_id = i1, amount = 100, tx_type = Income, category = c1, description = d1,
           date = ''2024-01-01'', timestamp = s1 \<rparr>,
         \<lparr> tx_id = i2, amount = 40, tx_type = Expense, category = c2, description = d2,
           date = ''2024-01-01'', timestamp = s2 \<rparr>,
         \<lparr> tx_id = i3, amount = 10, tx_type = Expense, category = c3, description = d3,
           date = ''2024-01-02'', timestamp = s3 \<rparr>] ''2024-01-01''
      in day_income r = 100 \<and> day_expense r = 40 \<and> totalVolume r = 140
         \<and> length (pieData r) = 2)"
proof -
  have m: "mset (day_list ts d) = mset (filter (\<lambda>t. date t = d) ts)"
    unfolding day_list_def by (rule mset_array_sort)
  have s: "sorted_wrt (\<lambda>a b. timestamp b \<le> timestamp a) (day_list ts d)"
    unfolding day_list_def by (rule sorted_array_sort)
  have i: "sum_list (map amount (filter (\<lambda>t. tx_type t = Income) (day_list ts d)))
      = sum_list (map amount (filter (\<lambda>t. tx_type t = Income) (filter (\<lambda>t. date t = d) ts)))"
    by (rule sum_list_filter_mset [OF m])
  have e: "sum_list (map amount (filter (\<lambda>t. tx_type t = Expense) (day_list ts d)))
      = sum_list (map amount (filter (\<lambda>t. tx_type t = Expense) (filter (\<lambda>t. date t = d) ts)))"
    by (rule sum_list_filter_mset [OF m])
  have l: "length (array_sort (\<lambda>a b. entry_value b - entry_value a) es) = length es" for es
    by (metis mset_array_sort size_mset)
  have ex: "(let r = dailyStats
        [\<lparr> tx_id = i1, amount = 100, tx_type = Income, category = c1, description = d1,
           date = ''2024-01-01'', timestamp = s1 \<rparr>,
         \<lparr> tx_id = i2, amount = 40, tx_type = Expense, category = c2, description = d2,
           date = ''2024-01-01'', timestamp = s2 \<rparr>,
         \<lparr> tx_id = i3, amount = 10, tx_type = Expense, category = c3, description = d3,
           date = ''2024-01-02'', timestamp = s3 \<rparr>] ''2024-01-01''
      in day_income r = 100 \<and> day_expense r = 40 \<and> totalVolume r = 140
         \<and> length (pieData r) = 2)"
    by (simp add: Let_def dailyStats_fields l day_list_def array_sort_def category_add_def category_key_def)
  show ?thesis
    using m s i e ex by (simp add: dailyStats_fields)
qed

lemma first_seen_snoc:
  "first_seen (xs @ [x]) = (if x \<in> set xs then first_seen xs else first_seen xs @ [x])"
  by (simp add: first_seen_def)

lemma set_first_seen: "set (first_seen xs) = set xs"
  by (simp add: first_seen_def)

lemma distinct_first_seen: "distinct (first_seen xs)"
  by (simp add: first_seen_def)

lemma pair_key_inj: "pair_key p = pair_key q \<longleftrightarrow> p = q"
  by (cases p; cases q; cases "fst p"; cases "fst q") (auto simp: pair_key_def)

lemma category_key_pair: "category_key t = pair_key (tx_type t, category t)"
  by (simp add: category_key_def pair_key_def)

lemma map_of_cat_entry:
  "map_of (map (cat_entry day) ps) (pair_key p) = None \<longleftrightarrow> p \<notin> set ps"
  by (induction ps) (auto simp: cat_entry_def pair_key_inj)

lemma pair_total_snoc:
  "pair_total (xs @ [t]) p =
     (if (tx_type t, category t) = p then pair_total xs p + amount t else pair_total xs p)"
  by (simp add: pair_total_def)

lemma pair_total_new:
  "p \<notin> set (map (\<lambda>t. (tx_type t, category t)) xs) \<Longrightarrow> pair_total xs p = 0"
  by (induction xs) (auto simp: pair_total_def)

lemma category_map_fold:
  "foldl category_add [] day = map (cat_entry day) (day_pairs day)"
proof (induction day rule: rev_induct)
  case Nil
  show ?case by (simp add: day_pairs_def first_seen_def)
next
  case (snoc t day)
  let ?p = "(tx_type t, category t)"
  let ?ps = "map (\<lambda>t. (tx_type t, category t)) day"
  have upd: "map (\<lambda>(k, v). if k = pair_key ?p then (k, (fst v + amount t, snd v)) else (k, v))
               (map (cat_entry day) ps) = map (cat_entry (day @ [t])) ps" for ps
    by (induction ps) (auto simp: cat_entry_def pair_key_inj pair_total_snoc)
  show ?case
  proof (cases "?p \<in> set ?ps")
    case True
    then have "?p \<in> set (day_pairs day)"
      by (simp add: day_pairs_def set_first_seen)
    then have "map_of (map (cat_entry day) (day_pairs day)) (pair_key ?p) \<noteq> None"
      by (simp add: map_of_cat_entry)
    moreover have "day_pairs (day @ [t]) = day_pairs day"
      using True by (simp add: day_pairs_def first_seen_snoc)
    ultimately show ?thesis
      using snoc upd [of "day_pairs day"] by (simp add: category_add_def category_key_pair Let_def)
  next
    case False
    then have notin: "?p \<notin> set (day_pairs day)"
      by (simp add: day_pairs_def set_first_seen)
    then have none: "map_of (map (cat_entry day) (day_pairs day)) (pair_key ?p) = None"
      by (simp add: map_of_cat_entry)
    have dp: "day_pairs (day @ [t]) = day_pairs day @ [?p]"
      using False by (simp add: day_pairs_def first_seen_snoc)
    have z: "pair_total day ?p = 0"
      using False by (rule pair_total_new)
    have new: "cat_entry (day @ [t]) ?p = (pair_key ?p, (0 + amount t, tx_type t))"
      by (simp add: cat_entry_def pair_total_snoc z)
    show ?thesis
      using snoc none upd [of "day_pairs day"] dp new
      by (simp add: category_add_def category_key_pair Let_def)
  qed
qed

lemma split_on_nonempty: "split_on sep s \<noteq> []"
  by (induction s) (auto split: list.splits)

lemma hd_split_on: "hd (split_on sep s) = takeWhile (\<lambda>c. c \<noteq> sep) s"
  by (induction s) (auto split: list.splits simp: split_on_nonempty)

lemma split_on_prefix:
  "sep \<notin> set a \<Longrightarrow> split_on sep (a @ sep # s) = a # split_on sep s"
  by (induction a) (auto split: list.splits simp: split_on_nonempty)

lemma second_segment:
  "array_get (split_on CHR ''-'' (pair_key p)) (Suc 0) = Some (takeWhile (\<lambda>c. c \<noteq> CHR ''-'') (snd p))"
proof -
  have a: "CHR ''-'' \<notin> set (type_string (fst p))"
    by (cases "fst p") simp_all
  obtain seg segs where s: "split_on CHR ''-'' (snd p) = seg # segs"
    using split_on_nonempty [of "CHR ''-''" "snd p"] by (cases "split_on CHR ''-'' (snd p)") auto
  have "seg = takeWhile (\<lambda>c. c \<noteq> CHR ''-'') (snd p)"
    using hd_split_on [of "CHR ''-''" "snd p"] s by simp
  then show ?thesis
    using split_on_prefix [OF a, of "snd p"] s by (simp add: pair_key_def)
qed

lemma pie_entries_breakdown:
  "pie_entries i e (map (cat_entry day) ps) = map (breakdown_entry day i e ps) [0..<length ps]"
proof (induction ps arbitrary: i e)
  case Nil
  show ?case by simp
next
  case (Cons p ps)
  have shift_i: "fst p = Income \<Longrightarrow>
      map (\<lambda>k. breakdown_entry day i e (p # ps) (Suc k)) [0..<length ps]
        = map (breakdown_entry day (Suc i) e ps) [0..<length ps]"
    by (simp add: breakdown_entry_def palette_color_def)
  have shift_e: "fst p \<noteq> Income \<Longrightarrow>
      map (\<lambda>k. breakdown_entry day i e (p # ps) (Suc k)) [0..<length ps]
        = map (breakdown_entry day i (Suc e) ps) [0..<length ps]"
    by (simp add: breakdown_entry_def palette_color_def)
  have head: "breakdown_entry day i e (p # ps) 0 =
      \<lparr> entry_name = array_get (split_on CHR ''-'' (pair_key p)) (Suc 0),
        entry_value = pair_total day p, entry_type = fst p,
        entry_color = (if fst p = Income then INCOME_COLORS ! (i mod length INCOME_COLORS)
                       else EXPENSE_COLORS ! (e mod length EXPENSE_COLORS)) \<rparr>"
    by (simp add: breakdown_entry_def palette_color_def second_segment)
  have rhs: "map (breakdown_entry day i e (p # ps)) [0..<length (p # ps)] =
      breakdown_entry day i e (p # ps) 0
        # map (\<lambda>k. breakdown_entry day i e (p # ps) (Suc k)) [0..<length ps]"
    by (simp add: map_upt_Suc del: upt_Suc)
  show ?case
  proof (cases "fst p = Income")
    case True
    then have "pie_entries i e (map (cat_entry day) (p # ps)) =
        breakdown_entry day i e (p # ps) 0 # pie_entries (Suc i) e (map (cat_entry day) ps)"
      by (simp add: head cat_entry_def)
    then show ?thesis
      using Cons [of "Suc i" e] shift_i [OF True] rhs by simp
  next
    case False
    then have "pie_entries i e (map (cat_entry day) (p # ps)) =
        breakdown_entry day i e (p # ps) 0 # pie_entries i (Suc e) (map (cat_entry day) ps)"
      by (simp add: head cat_entry_def)
    then show ?thesis
      using Cons [of i "Suc e"] shift_e [OF False] rhs by simp
  qed
qed

lemma pieData_breakdown:
  "pieData (dailyStats ts d) =
     array_sort (\<lambda>a b. entry_value b - entry_value a) (breakdown (day_list ts d))"
  by (simp add: dailyStats_fields category_map_fold pie_entries_breakdown breakdown_def)

lemma length_day_pairs:
  "length (day_pairs day) = card ((\<lambda>t. (tx_type t, category t)) ` set day)"
proof -
  have "distinct (day_pairs day)"
    by (simp add: day_pairs_def distinct_first_seen)
  then have "length (day_pairs day) = card (set (day_pairs day))"
    by (simp add: distinct_card)
  then show ?thesis
    by (simp add: day_pairs_def set_first_seen)
qed

text \<open>
  Claim C8: the breakdown list of \<^verbatim>\<open>dailyStats\<close> is the list \<open>breakdown\<close> of the
  day's transactions (one entry per distinct pair of type and category, in order of first
  encounter, each with the pair's summed amount and the next color of its type's
  palette), reordered by descending summed amount: the colors follow the order of first
  encounter, the positions follow the amounts. It has as many entries as the day has
  distinct pairs.
\<close>

theorem pieData_groups:
  "pieData (dailyStats ts d)
     = array_sort (\<lambda>a b. entry_value b - entry_value a)
         (breakdown (dayTransactions (dailyStats ts d)))
   \<and> mset (pieData (dailyStats ts d)) = mset (breakdown (dayTransactions (dailyStats ts d)))
   \<and> sorted_wrt (\<lambda>a b. entry_value b \<le> entry_value a) (pieData (dailyStats ts d))
   \<and> length (pieData (dailyStats ts d))
       = card ((\<lambda>t. (tx_type t, category t)) ` {t \<in> set ts. date t = d})"
proof -
  let ?day = "day_list ts d"
  have p: "pieData (dailyStats ts d)
      = array_sort (\<lambda>a b. entry_value b - entry_value a) (breakdown ?day)"
    by (rule pieData_breakdown)
  have m: "mset (pieData (dailyStats ts d)) = mset (breakdown ?day)"
    unfolding p by (rule mset_array_sort)
  have s: "sorted_wrt (\<lambda>a b. entry_value b \<le> entry_value a) (pieData (dailyStats ts d))"
    unfolding p by (rule sorted_array_sort)
  have "set ?day = {t \<in> set ts. date t = d}"
    using mset_array_sort [of timestamp "filter (\<lambda>t. date t = d) ts"]
    by (metis day_list_def set_filter set_mset_mset)
  moreover have "length (pieData (dailyStats ts d)) = length (day_pairs ?day)"
    using m by (metis size_mset breakdown_def length_map length_upt diff_zero)
  ultimately have l: "length (pieData (dailyStats ts d))
       = card ((\<lambda>t. (tx_type t, category t)) ` {t \<in> set ts. date t = d})"
    by (simp add: length_day_pairs)
  show ?thesis
    using p m s l by (simp add: dailyStats_fields)
qed

theorem pieData_groups_witness:
  "pieData (dailyStats [rent, lunch] ''2024-01-01'') =
      [\<lparr> entry_name = Some ''rent'', entry_value = 900, entry_type = Expense, entry_color = ''#f59e0b'' \<rparr>,
       \<lparr> entry_name = Some ''food'', entry_value = 25, entry_type = Expense, entry_color = ''#ef4444'' \<rparr>]"
proof -
  have "array_sort (\<lambda>a b. entry_value b - entry_value a)
         (breakdown (dayTransactions (dailyStats [rent, lunch] ''2024-01-01''))) = 
      [\<lparr> entry_name = Some ''rent'', entry_value = 900, entry_type = Expense, entry_color = ''#f59e0b'' \<rparr>,
       \<lparr> entry_name = Some ''food'', entry_value = 25, entry_type = Expense, entry_color = ''#ef4444'' \<rparr>]"
    by code_simp
  with pieData_groups [of "[rent, lunch]" "''2024-01-01''"] show ?thesis
    by simp
qed

text \<open>
  Claim C10: for every transaction of the day, the breakdown has an entry of its type,
  carrying the summed amount of its (type, category) pair, whose name is the second
  segment of the grouping key split on the hyphen: the category up to its first hyphen.
  The name is the whole category exactly when the category has no hyphen.
\<close>

theorem pieData_name:
  assumes "t \<in> set ts" and "date t = d"
  shows "\<exists>e \<in> set (pieData (dailyStats ts d)).
           entry_type e = tx_type t
         \<and> entry_value e = pair_total (dayTransactions (dailyStats ts d)) (tx_type t, category t)
         \<and> entry_name e = array_get (split_on CHR ''-'' (category_key t)) 1
         \<and> entry_name e = Some (takeWhile (\<lambda>c. c \<noteq> CHR ''-'') (category t))
         \<and> ((entry_name e = Some (category t)) = (CHR ''-'' \<notin> set (category t)))"
proof -
  let ?day = "day_list ts d"
  let ?p = "(tx_type t, category t)"
  let ?ps = "day_pairs ?day"
  have "set ?day = {t \<in> set ts. date t = d}"
    using mset_array_sort [of timestamp "filter (\<lambda>t. date t = d) ts"]
    by (metis day_list_def set_filter set_mset_mset)
  then have "t \<in> set ?day"
    using assms by simp
  then have "?p \<in> set ?ps"
    by (force simp: day_pairs_def set_first_seen)
  then obtain k where k: "k < length ?ps" "?ps ! k = ?p"
    by (auto simp: in_set_conv_nth)
  let ?e = "breakdown_entry ?day 0 0 ?ps k"
  have "?e \<in> set (breakdown ?day)"
    using k by (simp add: breakdown_def)
  then have mem: "?e \<in> set (pieData (dailyStats ts d))"
    by (metis pieData_breakdown mset_array_sort set_mset_mset)
  have n: "entry_name ?e = Some (takeWhile (\<lambda>c. c \<noteq> CHR ''-'') (category t))"
    using k by (simp add: breakdown_entry_def)
  have full: "(takeWhile (\<lambda>c. c \<noteq> CHR ''-'') (category t) = category t)
      = (CHR ''-'' \<notin> set (category t))"
    by (auto simp: takeWhile_eq_all_conv)
  have seg: "array_get (split_on CHR ''-'' (category_key t)) 1
      = Some (takeWhile (\<lambda>c. c \<noteq> CHR ''-'') (category t))"
    using second_segment [of ?p] by (simp add: category_key_pair)
  have "entry_type ?e = tx_type t
      \<and> entry_value ?e = pair_total (dayTransactions (dailyStats ts d)) ?p
      \<and> entry_name ?e = array_get (split_on CHR ''-'' (category_key t)) 1
      \<and> entry_name ?e = Some (takeWhile (\<lambda>c. c \<noteq> CHR ''-'') (category t))
      \<and> ((entry_name ?e = Some (category t)) = (CHR ''-'' \<notin> set (category t)))"
    using k n full seg by (simp add: breakdown_entry_def dailyStats_fields)
  with mem show ?thesis
    by blast
qed

theorem pieData_name_witness:
  "lunch \<in> set [lunch] \<and> date lunch = ''2024-01-01''
   \<and> (\<exists>e \<in> set (pieData (dailyStats [lunch] ''2024-01-01'')).
         entry_type e = Expense \<and> entry_name e = Some ''food'' \<and> entry_name e \<noteq> Some ''food-out'')"
proof -
  have a: "lunch \<in> set [lunch]" by simp
  have b: "date lunch = ''2024-01-01''" by (simp add: lunch_def)
  from pieData_name [OF a b]
  have "\<exists>e \<in> set (pieData (dailyStats [lunch] ''2024-01-01'')).
         entry_type e = Expense \<and> entry_name e = Some ''food'' \<and> entry_name e \<noteq> Some ''food-out''"
    by (simp add: lunch_def) blast
  with a b show ?thesis by blast
qed
section \<open>The save handler: proofs\<close>

lemma number_le_or_gt: "n = NaN \<or> number_le_zero n \<or> number_gt_zero n"
  by (cases n) auto

text \<open>A rejected submission changes nothing.\<close>

lemma handleSave_rejected:
  "fst (handleSave uuid now st) \<Longrightarrow> snd (handleSave uuid now st) = st"
  by (auto simp: handleSave_def split: if_splits)

text \<open>An accepted amount is positive, or it is not a number at all.\<close>

lemma handleSave_accepted:
  "\<not> fst (handleSave uuid now st) \<Longrightarrow>
     f_amount st \<noteq> [] \<and>
     (number_gt_zero (parseFloat (f_amount st)) \<or> parseFloat (f_amount st) = NaN)"
  using number_le_or_gt [of "parseFloat (f_amount st)"]
  by (auto simp: handleSave_def split: if_splits)


section \<open>\<^verbatim>\<open>JSON.parse\<close> reads back what \<^verbatim>\<open>JSON.stringify\<close> writes\<close>

subsection \<open>White space\<close>

lemma skip_ws_prefix:
  "list_all is_ws w \<Longrightarrow> skip_ws (w @ s) = skip_ws s"
  by (induction w) (simp_all add: skip_ws_def)

lemma skip_ws_char: "\<not> is_ws c \<Longrightarrow> skip_ws (c # s) = c # s"
  by (simp add: skip_ws_def)

subsection \<open>Strings\<close>

lemma parse_string_plain:
  "c \<noteq> CHR 0x22 \<Longrightarrow> c \<noteq> CHR 0x5C \<Longrightarrow> c \<notin> set control_chars \<Longrightarrow>
     parse_string (c # t) = prepend [c] (parse_string t)"
  by simp

lemma char_of_control:
  "char_of (0::int) = CHR 0x00"
  "char_of (1::int) = CHR 0x01"
  "char_of (2::int) = CHR 0x02"
  "char_of (3::int) = CHR 0x03"
  "char_of (4::int) = CHR 0x04"
  "char_of (5::int) = CHR 0x05"
  "char_of (6::int) = CHR 0x06"
  "char_of (7::int) = CHR 0x07"
  "char_of (8::int) = CHR 0x08"
  "char_of (9::int) = CHR 0x09"
  "char_of (10::int) = CHR 0x0A"
  "char_of (11::int) = CHR 0x0B"
  "char_of (12::int) = CHR 0x0C"
  "char_of (13::int) = CHR 0x0D"
  "char_of (14::int) = CHR 0x0E"
  "char_of (15::int) = CHR 0x0F"
  "char_of (16::int) = CHR 0x10"
  "char_of (17::int) = CHR 0x11"
  "char_of (18::int) = CHR 0x12"
  "char_of (19::int) = CHR 0x13"
  "char_of (20::int) = CHR 0x14"
  "char_of (21::int) = CHR 0x15"
  "char_of (22::int) = CHR 0x16"
  "char_of (23::int) = CHR 0x17"
  "char_of (24::int) = CHR 0x18"
  "char_of (25::int) = CHR 0x19"
  "char_of (26::int) = CHR 0x1A"
  "char_of (27::int) = CHR 0x1B"
  "char_of (28::int) = CHR 0x1C"
  "char_of (29::int) = CHR 0x1D"
  "char_of (30::int) = CHR 0x1E"
  "char_of (31::int) = CHR 0x1F"
  by code_simp+

lemma parse_string_control:
  "c \<in> set control_chars \<Longrightarrow> parse_string (json_escape c @ t) = prepend [c] (parse_string t)"
  unfolding control_chars_def
  by (auto simp: json_escape_def control_chars_def simple_escape_def unicode_escape_def hex4_def
      hex_value_def hex_char_def utf8_encode_def char_of_control)

lemma parse_string_escape:
  "parse_string (json_escape c @ t) = prepend [c] (parse_string t)"
proof (cases "c \<in> set control_chars")
  case True
  then show ?thesis by (rule parse_string_control)
next
  case False
  then show ?thesis
    by (auto simp: json_escape_def simple_escape_def)
qed

lemma parse_string_escaped:
  "parse_string (concat (map json_escape s) @ CHR 0x22 # r) = Some (s, r)"
  by (induction s) (simp_all add: parse_string_escape prepend_def)

lemma parse_string_quote:
  "parse_string (tl (quote s) @ r) = Some (s, r)"
  using parse_string_escaped [of s r] by (simp add: quote_def)

subsection \<open>Numbers\<close>

lemma number_end_digits:
  assumes "number_end r" and "dropWhile is_digit xs = []"
  shows "takeWhile is_digit (xs @ r) = xs" and "dropWhile is_digit (xs @ r) = r"
proof -
  have d: "\<And>x. x \<in> set xs \<Longrightarrow> is_digit x"
    using assms(2) by (simp add: dropWhile_eq_Nil_conv)
  have r1: "takeWhile is_digit r = []"
    using assms(1) by (cases r) (simp_all add: number_end_def)
  have r2: "dropWhile is_digit r = r"
    using assms(1) by (cases r) (simp_all add: number_end_def)
  have "takeWhile is_digit (xs @ r) = xs @ takeWhile is_digit r"
    using d by (rule takeWhile_append2)
  then show "takeWhile is_digit (xs @ r) = xs"
    by (simp only: r1 append_Nil2)
  have "dropWhile is_digit (xs @ r) = dropWhile is_digit r"
    using d by (rule dropWhile_append2)
  then show "dropWhile is_digit (xs @ r) = r"
    by (simp only: r2)
qed

lemma digits_then_char:
  assumes "dropWhile is_digit xs = c # rest"
  shows "takeWhile is_digit (xs @ r) = takeWhile is_digit xs"
    and "dropWhile is_digit (xs @ r) = c # rest @ r"
proof -
  define ds where "ds = takeWhile is_digit xs"
  have xc: "xs = ds @ c # rest \<and> \<not> is_digit c"
    unfolding ds_def by (rule assms [unfolded dropWhile_eq_Cons_conv])
  then have xs: "xs = ds @ c # rest" and c: "\<not> is_digit c"
    by blast+
  have d: "\<And>x. x \<in> set ds \<Longrightarrow> is_digit x"
    unfolding ds_def by (drule set_takeWhileD) simp
  have "takeWhile is_digit (ds @ (c # rest @ r)) = ds @ takeWhile is_digit (c # rest @ r)"
    using d by (rule takeWhile_append2)
  then have t: "takeWhile is_digit ((ds @ c # rest) @ r) = ds"
    using c by simp
  have "dropWhile is_digit (ds @ (c # rest @ r)) = dropWhile is_digit (c # rest @ r)"
    using d by (rule dropWhile_append2)
  then have dr: "dropWhile is_digit ((ds @ c # rest) @ r) = c # rest @ r"
    using c by simp
  have "takeWhile is_digit (xs @ r) = ds"
    by (subst xs) (rule t)
  then show "takeWhile is_digit (xs @ r) = takeWhile is_digit xs"
    by (simp only: ds_def)
  show "dropWhile is_digit (xs @ r) = c # rest @ r"
    by (subst xs) (rule dr)
qed

lemma take1_append: "xs \<noteq> [] \<Longrightarrow> take 1 (xs @ r) = take 1 xs"
  by (cases xs) simp_all

lemma drop1_append: "xs \<noteq> [] \<Longrightarrow> drop 1 (xs @ r) = drop 1 xs @ r"
  by (cases xs) simp_all

lemma takeWhile_all: "dropWhile P xs = [] \<Longrightarrow> takeWhile P xs = xs"
  by (metis append_Nil2 takeWhile_dropWhile_id)

lemma parse_exponent_e:
  "c = CHR ''e'' \<or> c = CHR ''E'' \<Longrightarrow>
     parse_exponent m e (c # rs) =
       (if takeWhile is_digit (if take 1 rs = ''-'' \<or> take 1 rs = ''+'' then drop 1 rs else rs) = []
        then None
        else Some (normal_number m
                     (e + (if take 1 rs = ''-''
                           then - digits_value (takeWhile is_digit
                                  (if take 1 rs = ''-'' \<or> take 1 rs = ''+'' then drop 1 rs else rs))
                           else digits_value (takeWhile is_digit
                                  (if take 1 rs = ''-'' \<or> take 1 rs = ''+'' then drop 1 rs else rs)))),
                   dropWhile is_digit
                     (if take 1 rs = ''-'' \<or> take 1 rs = ''+'' then drop 1 rs else rs)))"
  by (simp add: parse_exponent_def Let_def)

lemma parse_exponent_append:
  assumes "parse_exponent m e s = Some (v, [])" and "number_end r"
  shows "parse_exponent m e (s @ r) = Some (v, r)"
proof (cases s)
  case Nil
  then have v: "v = normal_number m e"
    using assms(1) by (simp add: parse_exponent_def)
  show ?thesis
    using assms(2) Nil v by (cases r) (simp_all add: parse_exponent_def number_end_def)
next
  case (Cons c rs)
  show ?thesis
  proof (cases "c = CHR ''e'' \<or> c = CHR ''E''")
    case False
    then show ?thesis
      using assms(1) Cons by (simp add: parse_exponent_def)
  next
    case True
    define r1 where "r1 = (if take 1 rs = ''-'' \<or> take 1 rs = ''+'' then drop 1 rs else rs)"
    have p: "takeWhile is_digit r1 \<noteq> []" "dropWhile is_digit r1 = []"
      "v = normal_number m
             (e + (if take 1 rs = ''-'' then - digits_value (takeWhile is_digit r1)
                   else digits_value (takeWhile is_digit r1)))"
      using assms(1) Cons True
      by (auto simp: parse_exponent_def Let_def r1_def split: if_splits)
    have r1: "r1 \<noteq> []"
      using p(1) by auto
    then have rs: "rs \<noteq> []"
      by (auto simp: r1_def split: if_splits)
    have r1': "(if take 1 rs = ''-'' \<or> take 1 rs = ''+'' then drop 1 (rs @ r) else rs @ r)
        = r1 @ r"
      using rs by (cases rs) (simp_all add: r1_def)
    have t: "takeWhile is_digit (r1 @ r) = takeWhile is_digit r1"
      by (simp only: number_end_digits(1) [OF assms(2) p(2)] takeWhile_all [OF p(2)])
    have d: "dropWhile is_digit (r1 @ r) = r"
      by (rule number_end_digits(2) [OF assms(2) p(2)])
    have n: "take 1 (rs @ r) = take 1 rs"
      using rs by (cases rs) simp_all
    have "parse_exponent m e (c # (rs @ r)) =
        (if takeWhile is_digit (r1 @ r) = [] then None
         else Some (normal_number m
                      (e + (if take 1 rs = ''-'' then - digits_value (takeWhile is_digit (r1 @ r))
                            else digits_value (takeWhile is_digit (r1 @ r)))),
                    dropWhile is_digit (r1 @ r)))"
      unfolding parse_exponent_e [OF True] n r1' by (rule refl)
    then show ?thesis
      unfolding t d Cons append_Cons using p by simp
  qed
qed

lemma parse_exponent_at_end:
  assumes "parse_exponent m e [] = Some (v, [])" and "number_end r"
  shows "parse_exponent m e r = Some (v, r)"
  using parse_exponent_append [OF assms] by simp

lemma parse_digits_end:
  "dropWhile is_digit s = [] \<Longrightarrow>
     parse_digits neg s =
       (if bad_integer_part (takeWhile is_digit s) then None
        else parse_exponent (signed neg (digits_value (takeWhile is_digit s))) 0 [])"
  unfolding parse_digits_def by (simp only: list.case)

lemma parse_digits_point:
  "dropWhile is_digit s = CHR ''.'' # r2 \<Longrightarrow>
     parse_digits neg s =
       (if bad_integer_part (takeWhile is_digit s) then None
        else if takeWhile is_digit r2 = [] then None
        else parse_exponent
               (signed neg (digits_value (takeWhile is_digit s @ takeWhile is_digit r2)))
               (- int (length (takeWhile is_digit r2))) (dropWhile is_digit r2))"
  unfolding parse_digits_def by (simp only: list.case simp_thms if_True)

lemma parse_digits_other:
  "dropWhile is_digit s = c # r2 \<Longrightarrow> c \<noteq> CHR ''.'' \<Longrightarrow>
     parse_digits neg s =
       (if bad_integer_part (takeWhile is_digit s) then None
        else parse_exponent (signed neg (digits_value (takeWhile is_digit s))) 0 (c # r2))"
  unfolding parse_digits_def by (simp only: list.case simp_thms if_False)

lemma parse_digits_append:
  assumes "parse_digits neg s = Some (v, [])" and "number_end r"
  shows "parse_digits neg (s @ r) = Some (v, r)"
proof -
  define ip where "ip = takeWhile is_digit s"
  define M where "M = signed neg (digits_value ip)"
  have ok: "\<not> bad_integer_part ip"
    using assms(1) unfolding parse_digits_def ip_def by (auto split: if_splits)
  show ?thesis
  proof (cases "dropWhile is_digit s")
    case Nil
    have t: "takeWhile is_digit (s @ r) = ip"
      unfolding ip_def
      by (simp only: number_end_digits(1) [OF assms(2) Nil] takeWhile_all [OF Nil])
    have d: "dropWhile is_digit (s @ r) = r"
      by (rule number_end_digits(2) [OF assms(2) Nil])
    have "parse_exponent M 0 [] = Some (v, [])"
      using assms(1) ok unfolding parse_digits_end [OF Nil] ip_def M_def by simp
    then have e: "parse_exponent M 0 r = Some (v, r)"
      using assms(2) by (rule parse_exponent_at_end)
    show ?thesis
    proof (cases r)
      case Nil
      then show ?thesis
        using assms(1) by simp
    next
      case (Cons c r')
      then have c: "c \<noteq> CHR ''.''"
        using assms(2) by (simp add: number_end_def)
      have "dropWhile is_digit (s @ r) = c # r'"
        using d Cons by simp
      from parse_digits_other [OF this c, of neg] show ?thesis
        using ok e t Cons by (simp add: M_def)
    qed
  next
    case (Cons c r2)
    have t: "takeWhile is_digit (s @ r) = ip"
      unfolding ip_def by (rule digits_then_char(1) [OF Cons])
    have d: "dropWhile is_digit (s @ r) = c # r2 @ r"
      by (rule digits_then_char(2) [OF Cons])
    show ?thesis
    proof (cases "c = CHR ''.''")
      case False
      have "parse_exponent M 0 (c # r2) = Some (v, [])"
        using assms(1) ok unfolding parse_digits_other [OF Cons False] ip_def M_def by simp
      then have "parse_exponent M 0 ((c # r2) @ r) = Some (v, r)"
        using assms(2) by (rule parse_exponent_append)
      then show ?thesis
        using parse_digits_other [OF d False, of neg] ok t by (simp add: M_def)
    next
      case True
      define fp where "fp = takeWhile is_digit r2"
      define F where "F = signed neg (digits_value (ip @ fp))"
      have c: "dropWhile is_digit s = CHR ''.'' # r2"
        using Cons True by simp
      have d': "dropWhile is_digit (s @ r) = CHR ''.'' # (r2 @ r)"
        using d True by simp
      have fp: "fp \<noteq> []"
        using assms(1) ok unfolding parse_digits_point [OF c] ip_def fp_def
        by (auto split: if_splits)
      have pe: "parse_exponent F (- int (length fp)) (dropWhile is_digit r2) = Some (v, [])"
        using assms(1) ok fp unfolding parse_digits_point [OF c] ip_def fp_def F_def
        by simp
      have "takeWhile is_digit (r2 @ r) = fp
          \<and> parse_exponent F (- int (length fp)) (dropWhile is_digit (r2 @ r)) = Some (v, r)"
      proof (cases "dropWhile is_digit r2")
        case Nil
        have "takeWhile is_digit (r2 @ r) = fp"
          unfolding fp_def
          by (simp only: number_end_digits(1) [OF assms(2) Nil] takeWhile_all [OF Nil])
        moreover have "dropWhile is_digit (r2 @ r) = r"
          by (rule number_end_digits(2) [OF assms(2) Nil])
        moreover have "parse_exponent F (- int (length fp)) r = Some (v, r)"
          using pe assms(2) unfolding Nil by (rule parse_exponent_at_end)
        ultimately show ?thesis by simp
      next
        case (Cons x rest)
        have "takeWhile is_digit (r2 @ r) = fp"
          unfolding fp_def by (rule digits_then_char(1) [OF Cons])
        moreover have "dropWhile is_digit (r2 @ r) = (x # rest) @ r"
          using digits_then_char(2) [OF Cons] by simp
        moreover have "parse_exponent F (- int (length fp)) ((x # rest) @ r) = Some (v, r)"
          using pe assms(2) unfolding Cons by (rule parse_exponent_append)
        ultimately show ?thesis by simp
      qed
      then show ?thesis
        using parse_digits_point [OF d', of neg] ok t fp by (simp add: F_def)
    qed
  qed
qed

lemma parse_digits_nonempty: "parse_digits neg s = Some x \<Longrightarrow> s \<noteq> [] \<and> is_digit (hd s)"
  by (cases s) (auto simp: parse_digits_def bad_integer_part_def split: if_splits)

lemma parse_number_append:
  assumes "parse_number s = Some (v, [])" and "number_end r"
  shows "parse_number (s @ r) = Some (v, r)"
proof (cases "take 1 s = ''-''")
  case True
  then obtain s' where s: "s = CHR ''-'' # s'"
    by (cases s) auto
  have "parse_digits True s' = Some (v, [])"
    using assms(1) s by (simp add: parse_number_def)
  then have "parse_digits True (s' @ r) = Some (v, r)"
    using assms(2) by (rule parse_digits_append)
  then show ?thesis
    using s by (simp add: parse_number_def)
next
  case False
  have p: "parse_digits False s = Some (v, [])"
    using assms(1) False by (simp add: parse_number_def)
  then have ne: "s \<noteq> []"
    using parse_digits_nonempty by blast
  then have t: "take 1 (s @ r) = take 1 s"
    by (cases s) simp_all
  have "parse_digits False (s @ r) = Some (v, r)"
    using p assms(2) by (rule parse_digits_append)
  then show ?thesis
    unfolding parse_number_def t using False by simp
qed

lemma parse_number_first:
  assumes "parse_number s = Some x"
  shows "\<exists>c t. s = c # t \<and> (c = CHR ''-'' \<or> is_digit c)"
proof (cases "take 1 s = ''-''")
  case True
  then show ?thesis by (cases s) auto
next
  case False
  then have "parse_digits False s = Some x"
    using assms by (simp add: parse_number_def)
  then show ?thesis
    using parse_digits_nonempty [of False s x] by (cases s) auto
qed

subsection \<open>One step of the parser\<close>

lemma is_ws_cases: "is_ws c \<longleftrightarrow> c = CHR 0x20 \<or> c = CHR 0x09 \<or> c = CHR 0x0A \<or> c = CHR 0x0D"
  by (auto simp: is_ws_def)

lemma skip_ws_ws: "list_all is_ws w \<Longrightarrow> \<not> is_ws c \<Longrightarrow> skip_ws (w @ c # s) = c # s"
  by (simp add: skip_ws_prefix skip_ws_char)

lemma number_end_ws: "list_all is_ws w \<Longrightarrow> number_end (w @ CHR '']'' # r)"
  "list_all is_ws w \<Longrightarrow> number_end (w @ CHR ''}'' # r)"
  "number_end (CHR '','' # r)"
  by (cases w; simp add: number_end_def is_ws_cases is_digit_def; blast)+

lemma parse_value_true:
  "skip_ws s = ''true'' @ r \<Longrightarrow> parse_value (Suc n) s = Some (JBool True, r)"
  by simp

lemma parse_value_false:
  "skip_ws s = ''false'' @ r \<Longrightarrow> parse_value (Suc n) s = Some (JBool False, r)"
  by simp

lemma parse_value_null:
  "skip_ws s = ''null'' @ r \<Longrightarrow> parse_value (Suc n) s = Some (JNull, r)"
  by simp

lemma parse_value_string:
  "skip_ws s = CHR 0x22 # t \<Longrightarrow>
     parse_value (Suc n) s = (case parse_string t of None \<Rightarrow> None | Some (str, r') \<Rightarrow> Some (JStr str, r'))"
  by simp

lemma parse_value_number:
  "skip_ws s = c # t \<Longrightarrow> c = CHR ''-'' \<or> is_digit c \<Longrightarrow>
     parse_value (Suc n) s = parse_number (c # t)"
  by (auto simp: is_digit_def)

lemma parse_value_empty_array:
  "skip_ws s = ''[]'' @ r \<Longrightarrow> parse_value (Suc n) s = Some (JArr [], r)"
  by (simp add: skip_ws_char is_ws_cases)

lemma parse_value_empty_object:
  "skip_ws s = ''{}'' @ r \<Longrightarrow> parse_value (Suc n) s = Some (JObj [], r)"
  by (simp add: skip_ws_char is_ws_cases)

lemma parse_value_array:
  "skip_ws s = CHR ''['' # t \<Longrightarrow> take 1 (skip_ws t) \<noteq> '']'' \<Longrightarrow>
     parse_value (Suc n) s =
       (case parse_elements n t of None \<Rightarrow> None | Some (vs, r') \<Rightarrow> Some (JArr vs, r'))"
  by simp

lemma parse_value_object:
  "skip_ws s = CHR ''{'' # t \<Longrightarrow> take 1 (skip_ws t) \<noteq> ''}'' \<Longrightarrow>
     parse_value (Suc n) s =
       (case parse_members n t of
          None \<Rightarrow> None
        | Some (kvs, r') \<Rightarrow> Some (JObj (foldl (\<lambda>obj p. obj_put (fst p) (snd p) obj) [] kvs), r'))"
  by simp

subsection \<open>Elements and members\<close>

lemma join_Cons2: "join sep (x # y # ys) = x @ sep @ join sep (y # ys)"
  by simp

lemma fuel_positive: "0 < fuel v"
  by (cases v) simp_all

lemma roundtrip_elements:
  assumes IH: "\<And>x w r n. x \<in> set xs \<Longrightarrow> list_all is_ws w \<Longrightarrow> number_end r \<Longrightarrow> fuel x \<le> n \<Longrightarrow>
                 parse_value n (w @ render x @ r) = Some (x, r)"
    and nl: "list_all is_ws nl" "list_all is_ws nl'"
  shows "xs \<noteq> [] \<Longrightarrow> length xs + sum_list (map fuel xs) \<le> n \<Longrightarrow>
         parse_elements n (nl @ join (CHR '','' # nl) (map render xs) @ nl' @ CHR '']'' # r)
           = Some (xs, r)"
  using IH
proof (induction xs arbitrary: n)
  case Nil
  then show ?case by simp
next
  case (Cons x xs)
  from Cons.prems(2) obtain n' where n: "n = Suc n'"
    by (cases n) auto
  have fx: "fuel x \<le> n'"
    using Cons.prems(2) n by simp
  show ?case
  proof (cases xs)
    case Nil
    have "parse_value n' (nl @ render x @ (nl' @ CHR '']'' # r)) = Some (x, nl' @ CHR '']'' # r)"
      using nl fx by (intro Cons.prems(3)) (simp_all add: number_end_ws)
    moreover have "skip_ws (nl' @ CHR '']'' # r) = CHR '']'' # r"
      using nl by (simp add: skip_ws_ws is_ws_cases)
    ultimately show ?thesis
      using Nil n by simp
  next
    case (Cons y ys)
    let ?rest = "nl @ join (CHR '','' # nl) (map render xs) @ nl' @ CHR '']'' # r"
    have "parse_value n' (nl @ render x @ (CHR '','' # ?rest)) = Some (x, CHR '','' # ?rest)"
      using nl fx by (intro Cons.prems(3)) (simp_all add: number_end_ws)
    moreover have "skip_ws (CHR '','' # ?rest) = CHR '','' # ?rest"
      by (simp add: skip_ws_char is_ws_cases)
    moreover have "parse_elements n' ?rest = Some (xs, r)"
    proof (rule Cons.IH)
      show "xs \<noteq> []" using Cons by simp
      show "length xs + sum_list (map fuel xs) \<le> n'"
        using Cons.prems(2) n by simp
      show "\<And>x w r n. x \<in> set xs \<Longrightarrow> list_all is_ws w \<Longrightarrow> number_end r \<Longrightarrow> fuel x \<le> n \<Longrightarrow>
                 parse_value n (w @ render x @ r) = Some (x, r)"
        using Cons.prems(3) by simp
    qed
    ultimately show ?thesis
      using Cons n by simp
  qed
qed

lemma roundtrip_members:
  assumes IH: "\<And>p w r n. p \<in> set kvs \<Longrightarrow> list_all is_ws w \<Longrightarrow> number_end r \<Longrightarrow>
                 fuel (snd p) \<le> n \<Longrightarrow> parse_value n (w @ render (snd p) @ r) = Some (snd p, r)"
    and nl: "list_all is_ws nl" "list_all is_ws nl'" "list_all is_ws sp"
  shows "kvs \<noteq> [] \<Longrightarrow> length kvs + sum_list (map (\<lambda>p. fuel (snd p)) kvs) \<le> n \<Longrightarrow>
         parse_members n
           (nl @ join (CHR '','' # nl) (map (\<lambda>p. quote (fst p) @ CHR '':'' # sp @ render (snd p)) kvs)
               @ nl' @ CHR ''}'' # r)
           = Some (kvs, r)"
  using IH
proof (induction kvs arbitrary: n)
  case Nil
  then show ?case by simp
next
  case (Cons p kvs)
  obtain k v where p: "p = (k, v)"
    by (cases p)
  from Cons.prems(2) obtain n' where n: "n = Suc n'"
    by (cases n) auto
  have fv: "fuel v \<le> n'"
    using Cons.prems(2) n p by simp
  have key: "skip_ws (nl @ quote k @ t) = CHR 0x22 # concat (map json_escape k) @ CHR 0x22 # t" for t
    using nl by (simp add: quote_def skip_ws_ws is_ws_cases)
  have str: "parse_string (concat (map json_escape k) @ CHR 0x22 # t) = Some (k, t)" for t
    by (rule parse_string_escaped)
  have col: "skip_ws (CHR '':'' # t) = CHR '':'' # t" for t
    by (simp add: skip_ws_char is_ws_cases)
  show ?case
  proof (cases kvs)
    case Nil
    have "parse_value n' (sp @ render v @ (nl' @ CHR ''}'' # r)) = Some (v, nl' @ CHR ''}'' # r)"
      using Cons.prems(3) [of p sp "nl' @ CHR ''}'' # r" n'] nl fv p
      by (simp add: number_end_ws)
    moreover have "skip_ws (nl' @ CHR ''}'' # r) = CHR ''}'' # r"
      using nl by (simp add: skip_ws_ws is_ws_cases)
    ultimately show ?thesis
      using Nil n p key [of "CHR '':'' # sp @ render v @ nl' @ CHR ''}'' # r"] str col
      by simp
  next
    case (Cons q qs)
    let ?rest = "nl @ join (CHR '','' # nl)
                   (map (\<lambda>p. quote (fst p) @ CHR '':'' # sp @ render (snd p)) kvs)
                 @ nl' @ CHR ''}'' # r"
    have "parse_value n' (sp @ render v @ (CHR '','' # ?rest)) = Some (v, CHR '','' # ?rest)"
      using Cons.prems(3) [of p sp "CHR '','' # ?rest" n'] nl fv p
      by (simp add: number_end_ws)
    moreover have "skip_ws (CHR '','' # ?rest) = CHR '','' # ?rest"
      by (simp add: skip_ws_char is_ws_cases)
    moreover have "parse_members n' ?rest = Some (kvs, r)"
    proof (rule Cons.IH)
      show "kvs \<noteq> []" using Cons by simp
      show "length kvs + sum_list (map (\<lambda>p. fuel (snd p)) kvs) \<le> n'"
        using Cons.prems(2) n by simp
      show "\<And>p w r n. p \<in> set kvs \<Longrightarrow> list_all is_ws w \<Longrightarrow> number_end r \<Longrightarrow>
                 fuel (snd p) \<le> n \<Longrightarrow> parse_value n (w @ render (snd p) @ r) = Some (snd p, r)"
        using Cons.prems(3) by simp
    qed
    ultimately show ?thesis
      using Cons n p key [of "CHR '':'' # sp @ render v @ CHR '','' # ?rest"] str col
      by simp
  qed
qed

subsection \<open>Values\<close>

lemma serialize_first:
  assumes "well_formed v"
  shows "\<exists>c t. serialize gap ind v = c # t \<and> value_start c"
proof (cases v)
  case (JNum m e)
  then have "parse_number (number_to_string m e) = Some (JNum m e, [])"
    using assms by simp
  from parse_number_first [OF this] show ?thesis
    using JNum by (auto simp: value_start_def is_ws_cases is_digit_def)
qed (auto simp: value_start_def is_ws_cases quote_def)

lemma line_break_ws:
  "list_all is_ws gap \<Longrightarrow> list_all is_ws ind \<Longrightarrow> list_all is_ws (line_break gap ind)"
  by (simp add: line_break_def is_ws_cases)

lemma not_ws:
  "\<not> is_ws CHR ''n''" "\<not> is_ws CHR ''t''" "\<not> is_ws CHR ''f''" "\<not> is_ws CHR 0x22"
  "\<not> is_ws CHR ''[''" "\<not> is_ws CHR ''{''" "\<not> is_ws CHR '']''" "\<not> is_ws CHR ''}''"
  "\<not> is_ws CHR '',''" "\<not> is_ws CHR '':''"
  by (simp_all add: is_ws_cases)

lemma skip_ws_start:
  "list_all is_ws w \<Longrightarrow> value_start c \<Longrightarrow> skip_ws (w @ c # t) = c # t"
  by (simp add: skip_ws_ws value_start_def)

lemma roundtrip_value:
  assumes gap: "list_all is_ws gap"
  shows "well_formed v \<Longrightarrow> list_all is_ws ind \<Longrightarrow> list_all is_ws w \<Longrightarrow> number_end r \<Longrightarrow>
         fuel v \<le> n \<Longrightarrow> parse_value n (w @ serialize gap ind v @ r) = Some (v, r)"
proof (induction v arbitrary: ind w r n)
  case JNull
  then obtain n' where n: "n = Suc n'" by (cases n) auto
  have "skip_ws (w @ serialize gap ind JNull @ r) = ''null'' @ r"
    using JNull.prems by (simp add: skip_ws_ws not_ws)
  then show ?case unfolding n by (rule parse_value_null)
next
  case (JBool b)
  then obtain n' where n: "n = Suc n'" by (cases n) auto
  show ?case
  proof (cases b)
    case True
    have "skip_ws (w @ serialize gap ind (JBool b) @ r) = ''true'' @ r"
      using JBool.prems True by (simp add: skip_ws_ws not_ws)
    then show ?thesis unfolding n using True by (simp only: parse_value_true)
  next
    case False
    have "skip_ws (w @ serialize gap ind (JBool b) @ r) = ''false'' @ r"
      using JBool.prems False by (simp add: skip_ws_ws not_ws)
    then show ?thesis unfolding n using False by (simp only: parse_value_false)
  qed
next
  case (JNum m e)
  then obtain n' where n: "n = Suc n'" by (cases n) auto
  have p: "parse_number (number_to_string m e) = Some (JNum m e, [])"
    using JNum.prems by simp
  from parse_number_first [OF p] obtain c t where
    ct: "number_to_string m e = c # t" "c = CHR ''-'' \<or> is_digit c"
    by blast
  then have "\<not> is_ws c"
    by (auto simp: is_ws_cases is_digit_def)
  then have "skip_ws (w @ serialize gap ind (JNum m e) @ r) = c # (t @ r)"
    using JNum.prems ct by (simp add: skip_ws_ws)
  then have "parse_value (Suc n') (w @ serialize gap ind (JNum m e) @ r) = parse_number (c # (t @ r))"
    using ct(2) by (rule parse_value_number)
  moreover have "parse_number (number_to_string m e @ r) = Some (JNum m e, r)"
    using p JNum.prems(4) by (rule parse_number_append)
  ultimately show ?case
    unfolding n using ct by simp
next
  case (JStr str)
  then obtain n' where n: "n = Suc n'" by (cases n) auto
  have "skip_ws (w @ serialize gap ind (JStr str) @ r)
      = CHR 0x22 # (concat (map json_escape str) @ CHR 0x22 # r)"
    using JStr.prems by (simp add: quote_def skip_ws_ws not_ws)
  from parse_value_string [OF this, of n'] show ?case
    unfolding n by (simp add: parse_string_escaped)
next
  case (JArr xs)
  then obtain n' where n: "n = Suc n'" by (cases n) auto
  show ?case
  proof (cases "xs = []")
    case True
    have "skip_ws (w @ serialize gap ind (JArr xs) @ r) = ''[]'' @ r"
      using JArr.prems True by (simp add: skip_ws_ws not_ws)
    then show ?thesis unfolding n using True by (simp only: parse_value_empty_array)
  next
    case False
    let ?nl = "line_break gap (ind @ gap)"
    let ?nl' = "line_break gap ind"
    let ?t = "?nl @ join (CHR '','' # ?nl) (map (serialize gap (ind @ gap)) xs) @ ?nl' @ CHR '']'' # r"
    have ws: "list_all is_ws ?nl" "list_all is_ws ?nl'" "list_all is_ws (ind @ gap)"
      using gap JArr.prems(2) by (simp_all add: line_break_ws)
    have ser: "serialize gap ind (JArr xs) @ r = CHR ''['' # ?t"
      using False by simp
    have sk: "skip_ws (w @ serialize gap ind (JArr xs) @ r) = CHR ''['' # ?t"
      unfolding ser using JArr.prems(3) by (simp add: skip_ws_ws not_ws)
    obtain x xs' where xs: "xs = x # xs'"
      using False by (cases xs) auto
    have "well_formed x"
      using JArr.prems(1) xs by simp
    from serialize_first [OF this, of gap "ind @ gap"] obtain c t where
      c: "serialize gap (ind @ gap) x = c # t" "value_start c"
      by blast
    have "\<exists>u. ?t = ?nl @ c # u"
      using xs c(1) by (cases xs') simp_all
    then obtain u where u: "?t = ?nl @ c # u" ..
    have "skip_ws ?t = c # u"
      unfolding u using ws(1) c(2) by (rule skip_ws_start)
    then have ne: "take 1 (skip_ws ?t) \<noteq> '']''"
      using c(2) by (simp add: value_start_def)
    have el: "parse_elements n' ?t = Some (xs, r)"
    proof (rule roundtrip_elements [where render = "serialize gap (ind @ gap)", OF _ ws(1) ws(2) False])
      show "length xs + sum_list (map fuel xs) \<le> n'"
        using JArr.prems(5) n by simp
      fix x w r n
      assume "x \<in> set xs" "list_all is_ws w" "number_end r" "fuel x \<le> n"
      moreover from \<open>x \<in> set xs\<close> have "well_formed x"
        using JArr.prems(1) by (simp add: list_all_iff)
      ultimately show "parse_value n (w @ serialize gap (ind @ gap) x @ r) = Some (x, r)"
        using ws(3) by (intro JArr.IH)
    qed
    show ?thesis
      unfolding n using parse_value_array [OF sk ne, of n'] el by simp
  qed
next
  case (JObj kvs)
  then obtain n' where n: "n = Suc n'" by (cases n) auto
  have canon: "foldl (\<lambda>obj p. obj_put (fst p) (snd p) obj) [] kvs = kvs"
    using JObj.prems(1) by simp
  show ?case
  proof (cases "kvs = []")
    case True
    have "skip_ws (w @ serialize gap ind (JObj kvs) @ r) = ''{}'' @ r"
      using JObj.prems True by (simp add: skip_ws_ws not_ws)
    then show ?thesis unfolding n using True by (simp only: parse_value_empty_object)
  next
    case False
    let ?nl = "line_break gap (ind @ gap)"
    let ?nl' = "line_break gap ind"
    define sp where "sp = (if gap = [] then [] else '' '')"
    let ?t = "?nl @ join (CHR '','' # ?nl)
                (map (\<lambda>p. quote (fst p) @ CHR '':'' # sp @ serialize gap (ind @ gap) (snd p)) kvs)
              @ ?nl' @ CHR ''}'' # r"
    have ws: "list_all is_ws ?nl" "list_all is_ws ?nl'" "list_all is_ws (ind @ gap)"
      using gap JObj.prems(2) by (simp_all add: line_break_ws)
    have wsp: "list_all is_ws sp"
      by (simp add: sp_def is_ws_cases)
    have col: "colon gap = CHR '':'' # sp"
      by (simp add: colon_def sp_def)
    have ser: "serialize gap ind (JObj kvs) @ r = CHR ''{'' # ?t"
      using False by (simp add: col)
    have sk: "skip_ws (w @ serialize gap ind (JObj kvs) @ r) = CHR ''{'' # ?t"
      unfolding ser using JObj.prems(3) by (simp add: skip_ws_ws not_ws)
    obtain p ps where kvs: "kvs = p # ps"
      using False by (cases kvs) auto
    have "\<exists>u. ?t = ?nl @ CHR 0x22 # u"
      using kvs by (cases ps) (simp_all add: quote_def)
    then obtain u where u: "?t = ?nl @ CHR 0x22 # u" ..
    have "skip_ws ?t = CHR 0x22 # u"
      unfolding u using ws(1) by (simp add: skip_ws_ws not_ws)
    then have ne: "take 1 (skip_ws ?t) \<noteq> ''}''"
      by simp
    have mem: "parse_members n' ?t = Some (kvs, r)"
    proof (rule roundtrip_members [where render = "serialize gap (ind @ gap)", OF _ ws(1) ws(2) wsp False])
      show "length kvs + sum_list (map (\<lambda>p. fuel (snd p)) kvs) \<le> n'"
        using JObj.prems(5) n by simp
      fix p w r n
      assume a: "p \<in> set kvs" "list_all is_ws w" "number_end r" "fuel (snd p) \<le> n"
      then have "well_formed (snd p)"
        using JObj.prems(1) by (simp add: list_all_iff)
      moreover have "snd p \<in> Basic_BNFs.snds p"
        by (cases p) simp
      ultimately show "parse_value n (w @ serialize gap (ind @ gap) (snd p) @ r) = Some (snd p, r)"
        using a ws(3) by (intro JObj.IH)
    qed
    show ?thesis
      unfolding n using parse_value_object [OF sk ne, of n'] mem canon by simp
  qed
qed

subsection \<open>Fuel\<close>

lemma join_length:
  "sep \<noteq> [] \<Longrightarrow> sum_list (map length xs) + length xs \<le> Suc (length (join sep xs))"
proof (induction sep xs rule: join.induct)
  case (3 sep x y ys)
  then have "Suc 0 \<le> length sep"
    by (cases sep) simp_all
  moreover have "sum_list (map length (y # ys)) + length (y # ys) \<le> Suc (length (join sep (y # ys)))"
    using 3 by blast
  ultimately show ?case by simp
qed simp_all

lemma serialize_nonempty: "well_formed v \<Longrightarrow> 0 < length (serialize gap ind v)"
  using serialize_first [of v gap ind] by auto

lemma sum_list_le:
  "(\<And>x. x \<in> set xs \<Longrightarrow> f x \<le> 2 * g x) \<Longrightarrow> sum_list (map f xs) \<le> 2 * sum_list (map g xs)"
  for f g :: "'a \<Rightarrow> nat"
  by (induction xs) (simp_all add: add_mono)

lemma sum_list_le_same:
  "(\<And>x. x \<in> set xs \<Longrightarrow> f x \<le> g x) \<Longrightarrow> sum_list (map f xs) \<le> sum_list (map g xs)"
  for f g :: "'a \<Rightarrow> nat"
  by (induction xs) (simp_all add: add_mono)

lemma fuel_bound: "well_formed v \<Longrightarrow> fuel v \<le> 2 * length (serialize gap ind v)"
proof (induction v arbitrary: ind)
  case (JArr xs)
  show ?case
  proof (cases "xs = []")
    case True
    then show ?thesis by simp
  next
    case False
    let ?texts = "map (serialize gap (ind @ gap)) xs"
    let ?sep = "CHR '','' # line_break gap (ind @ gap)"
    have "sum_list (map fuel xs) \<le> 2 * sum_list (map (\<lambda>x. length (serialize gap (ind @ gap) x)) xs)"
    proof (rule sum_list_le)
      fix x assume x: "x \<in> set xs"
      then have "well_formed x"
        using JArr.prems by (simp add: list_all_iff)
      with x show "fuel x \<le> 2 * length (serialize gap (ind @ gap) x)"
        by (rule JArr.IH)
    qed
    then have f: "sum_list (map fuel xs) \<le> 2 * sum_list (map length ?texts)"
      by (simp add: comp_def)
    have j: "sum_list (map length ?texts) + length xs \<le> Suc (length (join ?sep ?texts))"
      using join_length [of ?sep ?texts] by simp
    have l: "2 + length (join ?sep ?texts) \<le> length (serialize gap ind (JArr xs))"
      using False by simp
    show ?thesis
      using f j l by simp
  qed
next
  case (JObj kvs)
  show ?case
  proof (cases "kvs = []")
    case True
    then show ?thesis by simp
  next
    case False
    let ?member = "\<lambda>p. quote (fst p) @ colon gap @ serialize gap (ind @ gap) (snd p)"
    let ?texts = "map ?member kvs"
    let ?sep = "CHR '','' # line_break gap (ind @ gap)"
    have "sum_list (map (\<lambda>p. fuel (snd p)) kvs)
        \<le> 2 * sum_list (map (\<lambda>p. length (serialize gap (ind @ gap) (snd p))) kvs)"
    proof (rule sum_list_le)
      fix p assume p: "p \<in> set kvs"
      then have "well_formed (snd p)"
        using JObj.prems by (simp add: list_all_iff)
      moreover have "snd p \<in> Basic_BNFs.snds p"
        by (cases p) simp
      ultimately show "fuel (snd p) \<le> 2 * length (serialize gap (ind @ gap) (snd p))"
        using p by (intro JObj.IH)
    qed
    moreover have "sum_list (map (\<lambda>p. length (serialize gap (ind @ gap) (snd p))) kvs)
        \<le> sum_list (map (\<lambda>p. length (?member p)) kvs)"
      by (rule sum_list_le_same) simp
    ultimately have f: "sum_list (map (\<lambda>p. fuel (snd p)) kvs) \<le> 2 * sum_list (map length ?texts)"
      by (simp add: comp_def)
    have j: "sum_list (map length ?texts) + length kvs \<le> Suc (length (join ?sep ?texts))"
      using join_length [of ?sep ?texts] by simp
    have l: "2 + length (join ?sep ?texts) \<le> length (serialize gap ind (JObj kvs))"
      using False by simp
    show ?thesis
      using f j l by simp
  qed
next
  case (JNum m e)
  then have "0 < length (serialize gap ind (JNum m e))"
    by (rule serialize_nonempty)
  then show ?case
    by (cases "number_to_string m e") simp_all
qed (simp_all add: quote_def)

lemma JSON_parse_serialize:
  assumes "list_all is_ws gap" and "well_formed v"
  shows "JSON_parse (serialize gap [] v) = Inr v"
proof -
  have "fuel v \<le> 2 * length (serialize gap [] v) + 2"
    using fuel_bound [OF assms(2), of gap "[]"] by simp
  then have "parse_value (2 * length (serialize gap [] v) + 2) ([] @ serialize gap [] v @ [])
      = Some (v, [])"
    using assms by (intro roundtrip_value) (simp_all add: number_end_def)
  then show ?thesis
    by (simp add: JSON_parse_def skip_ws_def)
qed

lemma JSON_parse_stringify: "well_formed v \<Longrightarrow> JSON_parse (JSON_stringify v) = Inr v"
  unfolding JSON_stringify_def by (rule JSON_parse_serialize) simp_all

lemma JSON_parse_stringify_pretty:
  "well_formed v \<Longrightarrow> JSON_parse (JSON_stringify_pretty v) = Inr v"
  unfolding JSON_stringify_pretty_def by (rule JSON_parse_serialize) (simp_all add: is_ws_cases)

section \<open>The storage service: proofs\<close>

lemma getSettings_returns_parsed:
  "ls KEYS_SETTINGS = Some data \<Longrightarrow> data \<noteq> [] \<Longrightarrow> JSON_parse data = Inr v \<Longrightarrow>
     getSettings ls = Inr v"
  by (simp add: getSettings_def)

text \<open>
  Claim C1 (fails on the code): loading the settings is to merge the stored document over
  the defaults. \<^verbatim>\<open>getSettings\<close> returns the parsed document as it is: for a stored
  document with \<^verbatim>\<open>headerQuote\<close> only, the result has no \<^verbatim>\<open>noteCategories\<close>. The
  export, reading the same store, does merge.
\<close>

theorem getSettings_no_merge:
  \<open>getSettings store_partial_settings = Inr (JObj [(''headerQuote'', JStr ''x'')])
   \<and> get_field (JObj [(''headerQuote'', JStr ''x'')]) ''noteCategories'' = Inr None
   \<and> export_settings store_partial_settings
       = [(''headerQuote'', JStr ''x''),
          (''noteCategories'', JArr (map JStr DEFAULT_NOTE_CATEGORIES)),
          (''ledgerCategories'', JArr (map JStr DEFAULT_LEDGER_CATEGORIES))]\<close>
  by code_simp

lemma parse_or_empty_absent: "parse_or_empty None = Inr (JArr [])"
  by (simp add: parse_or_empty_def)

lemma parse_or_empty_fails:
  "JSON_parse s = Inl e \<Longrightarrow> \<exists>e'. parse_or_empty (Some s) = Inl e' \<or> parse_or_empty (Some s) = Inr (JArr [])"
  by (simp add: parse_or_empty_def)

text \<open>
  Claim C4: whatever the store holds, \<^verbatim>\<open>getNotes\<close>, \<^verbatim>\<open>getTransactions\<close> and
  \<^verbatim>\<open>getSettings\<close> return a value and raise nothing; when the key is absent or its text
  does not parse, the first two return the empty array and the third the default settings.
\<close>

theorem get_never_throws:
  "(\<exists>v. getNotes ls = Inr v) \<and> (\<exists>v. getTransactions ls = Inr v) \<and> (\<exists>v. getSettings ls = Inr v)
   \<and> (ls KEYS_NOTES = None \<or> (\<exists>s e. ls KEYS_NOTES = Some s \<and> JSON_parse s = Inl e)
        \<longrightarrow> getNotes ls = Inr (JArr []))
   \<and> (ls KEYS_TRANSACTIONS = None \<or> (\<exists>s e. ls KEYS_TRANSACTIONS = Some s \<and> JSON_parse s = Inl e)
        \<longrightarrow> getTransactions ls = Inr (JArr []))
   \<and> (ls KEYS_SETTINGS = None \<or> (\<exists>s e. ls KEYS_SETTINGS = Some s \<and> JSON_parse s = Inl e)
        \<longrightarrow> getSettings ls = Inr (JObj default_settings))"
proof -
  have n: "\<exists>v. getNotes ls = Inr v"
    by (simp add: getNotes_def split: sum.split)
  have t: "\<exists>v. getTransactions ls = Inr v"
    by (simp add: getTransactions_def split: sum.split)
  have s: "\<exists>v. getSettings ls = Inr v"
    by (simp add: getSettings_def split: option.split sum.split)
  have n0: "ls KEYS_NOTES = None \<or> (\<exists>s e. ls KEYS_NOTES = Some s \<and> JSON_parse s = Inl e)
        \<longrightarrow> getNotes ls = Inr (JArr [])"
    by (auto simp: getNotes_def parse_or_empty_def)
  have t0: "ls KEYS_TRANSACTIONS = None \<or> (\<exists>s e. ls KEYS_TRANSACTIONS = Some s \<and> JSON_parse s = Inl e)
        \<longrightarrow> getTransactions ls = Inr (JArr [])"
    by (auto simp: getTransactions_def parse_or_empty_def)
  have s0: "ls KEYS_SETTINGS = None \<or> (\<exists>s e. ls KEYS_SETTINGS = Some s \<and> JSON_parse s = Inl e)
        \<longrightarrow> getSettings ls = Inr (JObj default_settings)"
    by (auto simp: getSettings_def)
  from n t s n0 t0 s0 show ?thesis by blast
qed

theorem get_never_throws_witness:
  \<open>store_corrupt_notes KEYS_TRANSACTIONS = None
   \<and> JSON_parse ''[{"id":"n1","content":"mil'' = Inl SyntaxError
   \<and> getNotes store_corrupt_notes = Inr (JArr [])
   \<and> getTransactions store_corrupt_notes = Inr (JArr [])
   \<and> getSettings store_corrupt_notes = Inr (JObj default_settings)\<close>
proof -
  have a: "store_corrupt_notes KEYS_NOTES = Some ''[{\"id\":\"n1\",\"content\":\"mil''"
    by code_simp
  have b: \<open>JSON_parse ''[{"id":"n1","content":"mil'' = Inl SyntaxError\<close>
    by code_simp
  have c: "store_corrupt_notes KEYS_TRANSACTIONS = None"
    by code_simp
  have d: "store_corrupt_notes KEYS_SETTINGS = None"
    by code_simp
  from get_never_throws [of store_corrupt_notes] a b c d
  show ?thesis by simp
qed

lemma exportData_corrupt_settings:
  "ls KEYS_SETTINGS = Some s \<Longrightarrow> JSON_parse s = Inl e \<Longrightarrow> export_settings ls = default_settings"
  by (simp add: export_settings_def)

text \<open>
  Claim C5 (fails on the code): the export is to recover from a stored entity that does not
  parse. With notes that are cut off, \<^verbatim>\<open>exportData\<close> raises the SyntaxError of its
  first \<^verbatim>\<open>JSON.parse\<close>, where \<^verbatim>\<open>getNotes\<close> on the same store returns the empty array.
  Only the settings are recovered (\<open>exportData_corrupt_settings\<close>).
\<close>

theorem exportData_throws:
  \<open>exportData ''2024-01-01T00:00:00.000Z'' store_corrupt_notes = Inl SyntaxError
   \<and> getNotes store_corrupt_notes = Inr (JArr [])\<close>
  by code_simp

lemma keys_distinct:
  "KEYS_NOTES \<noteq> KEYS_TRANSACTIONS" "KEYS_NOTES \<noteq> KEYS_SETTINGS" "KEYS_TRANSACTIONS \<noteq> KEYS_SETTINGS"
  by (simp_all add: KEYS_NOTES_def KEYS_TRANSACTIONS_def KEYS_SETTINGS_def)

lemma spread_defaults: "spread [] (JObj default_settings) = default_settings"
  by code_simp

lemma get_field_document:
  "get_field doc k = (if doc = JNull then Inl TypeError else Inr (document_field doc k))"
  by (cases doc) (simp_all add: document_field_def)

lemma import_writes_keys:
  "import_writes n t s ls KEYS_NOTES = written n JSON_stringify (ls KEYS_NOTES)"
  "import_writes n t s ls KEYS_TRANSACTIONS = written t JSON_stringify (ls KEYS_TRANSACTIONS)"
  "import_writes n t s ls KEYS_SETTINGS = written s merged_text (ls KEYS_SETTINGS)"
  "k \<noteq> KEYS_NOTES \<Longrightarrow> k \<noteq> KEYS_TRANSACTIONS \<Longrightarrow> k \<noteq> KEYS_SETTINGS \<Longrightarrow>
     import_writes n t s ls k = ls k"
  using keys_distinct
  by (auto simp: import_writes_def write_if_truthy_def write_settings_def written_def
      merged_text_def spread_defaults split: option.splits)


lemma importData_parsed:
  "JSON_parse text = Inr doc \<Longrightarrow>
     importData text ls =
       (if \<not> isArray (document_field doc ''notes'') \<and> \<not> isArray (document_field doc ''transactions'')
        then (False, ls)
        else (True, import_writes (document_field doc ''notes'') (document_field doc ''transactions'')
                      (document_field doc ''settings'') ls))"
  by (cases "doc = JNull") (simp_all add: importData_def get_field_document document_field_def)




lemma written_same: "old = Some (text v) \<Longrightarrow> written (Some v) text old = old"
  by (simp add: written_def)

lemma JSON_stringify_nonempty: "well_formed v \<Longrightarrow> JSON_stringify v \<noteq> []"
  using serialize_nonempty [of v "[]" "[]"] by (auto simp: JSON_stringify_def)

lemma parse_or_empty_stringify:
  "well_formed v \<Longrightarrow> parse_or_empty (Some (JSON_stringify v)) = Inr v"
  by (simp add: parse_or_empty_def JSON_stringify_nonempty JSON_parse_stringify)

lemma export_document_well_formed:
  "well_formed notes \<Longrightarrow> well_formed txs \<Longrightarrow> well_formed (JObj kvs) \<Longrightarrow>
     well_formed (export_document notes txs kvs now)"
  by (simp add: export_document_def obj_put_def is_array_index_def is_digit_def)

text \<open>
  Claim C3, as amended: when each of the three keys holds what the save operations write
  (the compact serialization of a well-formed value), at least one of notes and
  transactions is an array, and the settings are an object that merging over the defaults
  leaves as it is (it carries the fields of the defaults, in their place), then the export
  succeeds, and importing its text succeeds and leaves the whole store exactly as it was.
\<close>

theorem import_export_round_trip:
  assumes n: "ls KEYS_NOTES = Some (JSON_stringify notes)" "well_formed notes"
    and t: "ls KEYS_TRANSACTIONS = Some (JSON_stringify txs)" "well_formed txs"
    and a: "isArray (Some notes) \<or> isArray (Some txs)"
    and s: "ls KEYS_SETTINGS = Some (JSON_stringify (JObj kvs))" "well_formed (JObj kvs)"
           "spread default_settings (JObj kvs) = kvs"
  shows "exportData now ls = Inr (JSON_stringify_pretty (export_document notes txs kvs now))
         \<and> importData (JSON_stringify_pretty (export_document notes txs kvs now)) ls = (True, ls)"
proof -
  let ?doc = "export_document notes txs kvs now"
  have es: "export_settings ls = kvs"
    using s by (simp add: export_settings_def spread_defaults JSON_stringify_nonempty
        JSON_parse_stringify)
  have ex: "exportData now ls = Inr (JSON_stringify_pretty ?doc)"
    using n t es by (simp add: exportData_def parse_or_empty_stringify)
  have r: "JSON_parse (JSON_stringify_pretty ?doc) = Inr ?doc"
    using n(2) t(2) s(2) by (intro JSON_parse_stringify_pretty export_document_well_formed)
  have f: "document_field ?doc ''notes'' = Some notes"
    "document_field ?doc ''transactions'' = Some txs"
    "document_field ?doc ''settings'' = Some (JObj kvs)"
    by (simp_all add: export_document_def document_field_def)
  have im: "importData (JSON_stringify_pretty ?doc) ls
      = (True, import_writes (Some notes) (Some txs) (Some (JObj kvs)) ls)"
    using a by (auto simp: importData_parsed [OF r] f)
  have "import_writes (Some notes) (Some txs) (Some (JObj kvs)) ls k = ls k" for k
  proof -
    consider "k = KEYS_NOTES" | "k = KEYS_TRANSACTIONS" | "k = KEYS_SETTINGS"
      | "k \<noteq> KEYS_NOTES" "k \<noteq> KEYS_TRANSACTIONS" "k \<noteq> KEYS_SETTINGS"
      by blast
    then show ?thesis
    proof cases
      case 1
      then show ?thesis using n by (simp add: import_writes_keys written_same)
    next
      case 2
      then show ?thesis using t by (simp add: import_writes_keys written_same)
    next
      case 3
      then show ?thesis using s by (simp add: import_writes_keys written_same merged_text_def)
    next
      case 4
      then show ?thesis by (simp add: import_writes_keys)
    qed
  qed
  then have "import_writes (Some notes) (Some txs) (Some (JObj kvs)) ls = ls"
    by (rule ext)
  with ex im show ?thesis by simp
qed

theorem import_export_round_trip_witness:
  "exportData export_time store_saved
     = Inr (JSON_stringify_pretty
              (export_document saved_notes saved_transactions_json saved_settings export_time))
   \<and> importData
        (JSON_stringify_pretty
           (export_document saved_notes saved_transactions_json saved_settings export_time))
        store_saved = (True, store_saved)"
proof -
  have n: "store_saved KEYS_NOTES = Some (JSON_stringify saved_notes)"
    "well_formed saved_notes"
    by code_simp+
  have t: "store_saved KEYS_TRANSACTIONS = Some (JSON_stringify saved_transactions_json)"
    "well_formed saved_transactions_json"
    by code_simp+
  have a: "isArray (Some saved_notes) \<or> isArray (Some saved_transactions_json)"
    by code_simp
  have s: "store_saved KEYS_SETTINGS = Some (JSON_stringify (JObj saved_settings))"
    "well_formed (JObj saved_settings)"
    "spread default_settings (JObj saved_settings) = saved_settings"
    by code_simp+
  show ?thesis
    by (rule import_export_round_trip [OF n t a s])
qed

text \<open>
  Claim C3 as stated fails: on the empty store the export writes empty arrays and the
  default settings into the document, and the import then creates all three keys, which
  were absent before.
\<close>

theorem import_export_empty_store:
  "(case exportData export_time Map.empty of
      Inl e \<Rightarrow> False
    | Inr text \<Rightarrow>
        fst (importData text Map.empty)
        \<and> snd (importData text Map.empty) KEYS_NOTES = Some ''[]''
        \<and> snd (importData text Map.empty) KEYS_TRANSACTIONS = Some ''[]''
        \<and> snd (importData text Map.empty) KEYS_SETTINGS
            = Some (JSON_stringify (JObj default_settings)))
   \<and> (Map.empty :: storage) KEYS_NOTES = None"
  by code_simp


end
